theory Spec2Isabelle
  imports Complex_Main "HOL-Library.Word" "HOL-Library.Char_ord" "HOL-Library.List_Lexorder"
    "HOL-Library.AList"
begin

unbundle bit_operations_syntax

section \<open>Values of the platform\<close>

text \<open>
  The backend is TypeScript on Node. A JavaScript string is modelled as a \<^typ>\<open>string\<close>,
  one \<^typ>\<open>char\<close> per UTF-16 code unit (code units up to 255); the order on strings is
  the lexicographic order on code units, which is the order of \<^verbatim>\<open>Array.prototype.sort\<close>
  without a comparator. A \<^verbatim>\<open>Buffer\<close> is a list of bytes.
\<close>

type_synonym byte = "8 word"

text \<open>
  A JavaScript number: a finite double, read as the rational it denotes, or one of the
  three non-finite values. Arithmetic on finite values is exact here: the rounding of
  doubles is not modelled.
\<close>

datatype jsnumber = Finite rat | PosInfinity | NegInfinity | NaN

datatype json =
    JNull
  | JBool bool
  | JNum jsnumber
  | JStr string
  | JArr "json list"
  | JObj "(string \<times> json) list"

datatype error =
    RangeError
  | SyntaxError
  | TypeError
  | ERR_INVALID_ARG_VALUE
  | ENOENT
  | ENOTDIR
  | EISDIR
  | EEXIST
  | ENAMETOOLONG

text \<open>
  What the code calls and the repository does not define: the HMAC of Node's
  \<^verbatim>\<open>crypto\<close> (key, then message), \<^verbatim>\<open>Number\<close> on a string, the rendering
  of a number that is not an integer below \<open>2^53\<close> in magnitude,
  \<^verbatim>\<open>Buffer.toString('utf8')\<close>, \<^verbatim>\<open>JSON.parse\<close> (\<open>None\<close> when it throws
  SyntaxError), \<^verbatim>\<open>JSON.stringify(v, null, 2)\<close>, and the most bytes that the file
  system takes in one name and in one path. They are parameters of the model.
\<close>

record platform =
  hmac_sha256 :: "byte list \<Rightarrow> byte list \<Rightarrow> byte list"
  toNumber :: "string \<Rightarrow> jsnumber"
  formatNumber :: "rat \<Rightarrow> string"
  bufferToString :: "byte list \<Rightarrow> string"
  JSON_parse :: "string \<Rightarrow> json option"
  JSON_stringify :: "json \<Rightarrow> string"
  NAME_MAX :: nat
  PATH_MAX :: nat

subsection \<open>Strings and buffers\<close>

definition startsWith :: "string \<Rightarrow> string \<Rightarrow> bool" where
  "startsWith s p = (take (length p) s = p)"

definition endsWith :: "string \<Rightarrow> string \<Rightarrow> bool" where
  "endsWith s p = (length p \<le> length s \<and> drop (length s - length p) s = p)"

text \<open>\<^verbatim>\<open>s.includes(sub)\<close>: \<open>sub\<close> occurs in \<open>s\<close> as a contiguous substring.\<close>

fun includes_str :: "string \<Rightarrow> string \<Rightarrow> bool" where
  "includes_str [] sub = (sub = [])"
| "includes_str (c # cs) sub = (startsWith (c # cs) sub \<or> includes_str cs sub)"

text \<open>
  The UTF-8 bytes of a string, as \<^verbatim>\<open>hmac.update(string)\<close> and
  \<^verbatim>\<open>createHmac(alg, string)\<close> take them: one byte below 128, two bytes from 128 to 255.
\<close>

definition utf8_char :: "char \<Rightarrow> byte list" where
  "utf8_char c =
     (let n = (of_char c :: nat)
      in if n < 128 then [word_of_nat n]
         else [word_of_nat (192 + n div 64), word_of_nat (128 + n mod 64)])"

definition utf8 :: "string \<Rightarrow> byte list" where
  "utf8 s = concat (map utf8_char s)"

text \<open>\<^verbatim>\<open>digest('hex')\<close>: two lower-case hexadecimal digits for each byte.\<close>

definition hexdigit :: "nat \<Rightarrow> char" where
  "hexdigit n = ''0123456789abcdef'' ! n"

definition hexByte :: "byte \<Rightarrow> string" where
  "hexByte b = [hexdigit (unat b div 16), hexdigit (unat b mod 16)]"

definition hexEncode :: "byte list \<Rightarrow> string" where
  "hexEncode bs = concat (map hexByte bs)"

text \<open>
  \<^verbatim>\<open>Buffer.from(s, 'hex')\<close>: Node decodes pairs of hexadecimal digits, either
  case, and stops at the first pair that is not two such digits; a last single character
  is dropped. It never throws.
\<close>

definition unhex :: "char \<Rightarrow> nat option" where
  "unhex c =
     (let n = (of_char c :: nat)
      in if 48 \<le> n \<and> n \<le> 57 then Some (n - 48)
         else if 97 \<le> n \<and> n \<le> 102 then Some (n - 87)
         else if 65 \<le> n \<and> n \<le> 70 then Some (n - 55)
         else None)"

fun hexDecode :: "string \<Rightarrow> byte list" where
  "hexDecode (c # d # cs) =
     (case unhex c of
        None \<Rightarrow> []
      | Some a \<Rightarrow>
          (case unhex d of
             None \<Rightarrow> []
           | Some b \<Rightarrow> word_of_nat (16 * a + b) # hexDecode cs))"
| "hexDecode cs = []"

text \<open>
  \<^verbatim>\<open>crypto.timingSafeEqual(a, b)\<close>: RangeError when the lengths differ; otherwise
  every pair of bytes is combined (OpenSSL's \<^verbatim>\<open>CRYPTO_memcmp\<close>: the XORs of the pairs
  are OR-ed together) and the buffers are equal when the result is zero.
\<close>

definition timingSafeEqual :: "byte list \<Rightarrow> byte list \<Rightarrow> error + bool" where
  "timingSafeEqual a b =
     (if length a \<noteq> length b then Inl RangeError
      else Inr (fold (\<lambda>(x, y) acc. acc OR (x XOR y)) (zip a b) 0 = 0))"

section \<open>The signature verifier\<close>

record VerifyArgs =
  rawBody :: "byte list"
  signature :: string
  timestamp :: string
  secret :: string
  maxSkewSeconds :: "jsnumber option"

text \<open>
  \<^verbatim>\<open>x > m\<close> for a finite \<open>x\<close> and any number \<open>m\<close>; a comparison with NaN is
  false.
\<close>

fun exceeds :: "rat \<Rightarrow> jsnumber \<Rightarrow> bool" where
  "exceeds x (Finite m) = (m < x)"
| "exceeds x PosInfinity = False"
| "exceeds x NegInfinity = True"
| "exceeds x NaN = False"

text \<open>\<^verbatim>\<open>signature.startsWith('sha256=') ? signature.slice('sha256='.length) : signature\<close>\<close>

definition providedDigest :: "string \<Rightarrow> string" where
  "providedDigest sg = (if startsWith sg ''sha256='' then drop (length ''sha256='') sg else sg)"

text \<open>The digest the verifier expects: HMAC over the timestamp string, a dot, the body.\<close>

definition expectedDigest :: "platform \<Rightarrow> VerifyArgs \<Rightarrow> byte list" where
  "expectedDigest P args =
     hmac_sha256 P (utf8 (secret args)) (utf8 (timestamp args @ ''.'') @ rawBody args)"

text \<open>The destructured \<^verbatim>\<open>maxSkewSeconds = 5 * 60\<close>: the default stands for a missing value.\<close>

definition skewLimit :: "VerifyArgs \<Rightarrow> jsnumber" where
  "skewLimit args = (case maxSkewSeconds args of None \<Rightarrow> Finite (5 * 60) | Some m \<Rightarrow> m)"

text \<open>
  \<^verbatim>\<open>verifySignature\<close>; \<open>nowMs\<close> is what \<^verbatim>\<open>Date.now()\<close> returns, in
  milliseconds. The result is \<open>Inl\<close> when the function throws.
\<close>

definition verifySignature :: "platform \<Rightarrow> int \<Rightarrow> VerifyArgs \<Rightarrow> error + bool" where
  "verifySignature P nowMs args =
     (let skew = skewLimit args
      in if signature args = [] \<or> timestamp args = [] \<or> secret args = [] then Inr False
         else
           (case toNumber P (timestamp args) of
              Finite ts \<Rightarrow>
                (let now = nowMs div 1000
                 in if exceeds \<bar>of_int now - ts\<bar> skew then Inr False
                    else
                      (let expected = hexEncode (expectedDigest P args);
                           provided = providedDigest (signature args);
                           a = hexDecode expected;
                           b = hexDecode provided
                       in if length a \<noteq> length b then Inr False
                          else timingSafeEqual a b))
            | _ \<Rightarrow> Inr False))"

section \<open>The payload store\<close>

subsection \<open>Values read from a payload\<close>

text \<open>
  \<^verbatim>\<open>v?.k\<close> for the member names the store reads (\<open>type\<close>, \<open>data\<close>,
  \<open>conversation_id\<close>, \<open>event_timestamp\<close>): \<open>None\<close> is \<^verbatim>\<open>undefined\<close>. Only an
  object has such a member; a primitive or an array gives \<^verbatim>\<open>undefined\<close>.
\<close>

fun getProp :: "json option \<Rightarrow> string \<Rightarrow> json option" where
  "getProp (Some (JObj kvs)) k = map_of kvs k"
| "getProp v k = None"

text \<open>\<^verbatim>\<open>v ?? d\<close>: the default replaces \<^verbatim>\<open>undefined\<close> and \<^verbatim>\<open>null\<close> only.\<close>

fun nullish :: "json option \<Rightarrow> json \<Rightarrow> json" where
  "nullish None d = d"
| "nullish (Some JNull) d = d"
| "nullish (Some v) d = v"

definition digitChar :: "nat \<Rightarrow> char" where
  "digitChar n = ''0123456789'' ! n"

fun digits :: "nat \<Rightarrow> string" where
  "digits n = (if n < 10 then [digitChar n] else digits (n div 10) @ [digitChar (n mod 10)])"

declare digits.simps [simp del]

definition showInt :: "int \<Rightarrow> string" where
  "showInt i = (if i < 0 then CHR ''-'' # digits (nat (- i)) else digits (nat i))"

text \<open>
  The string of a number. JavaScript writes the shortest digits that read back as the same
  double: for an integer below \<open>2^53\<close> in magnitude these are all its decimal digits;
  the platform renders every other finite value (a fraction, or an integer from \<open>2^53\<close>
  on, whose last digits are rounded away).
\<close>

fun numberToString :: "platform \<Rightarrow> jsnumber \<Rightarrow> string" where
  "numberToString P (Finite q) =
     (if of_int \<lfloor>q\<rfloor> = q \<and> \<bar>q\<bar> < 2 ^ 53 then showInt \<lfloor>q\<rfloor> else formatNumber P q)"
| "numberToString P PosInfinity = ''Infinity''"
| "numberToString P NegInfinity = ''-Infinity''"
| "numberToString P NaN = ''NaN''"

fun intercalate :: "string \<Rightarrow> string list \<Rightarrow> string" where
  "intercalate sep [] = []"
| "intercalate sep [x] = x"
| "intercalate sep (x # y # ys) = x @ sep @ intercalate sep (y # ys)"

text \<open>The results of the elements of an array, in order, up to the first one that throws.\<close>

fun sequenceResults :: "(error + 'a) list \<Rightarrow> error + 'a list" where
  "sequenceResults [] = Inr []"
| "sequenceResults (r # rs) =
     (case r of
        Inl e \<Rightarrow> Inl e
      | Inr x \<Rightarrow> (case sequenceResults rs of Inl e \<Rightarrow> Inl e | Inr xs \<Rightarrow> Inr (x # xs)))"

text \<open>
  The string of a value, as a template literal and \<^verbatim>\<open>String(v)\<close> give it. An array is
  its elements joined by commas (\<^verbatim>\<open>null\<close> elements are empty). An object is
  \<^verbatim>\<open>[object Object]\<close>, by the \<open>toString\<close> it inherits; when it has a member of its own
  named \<open>toString\<close>, which in a parsed payload is never a function, the conversion finds
  nothing to call that gives a primitive and throws TypeError.
\<close>

fun toString :: "platform \<Rightarrow> json \<Rightarrow> error + string" where
  "toString P JNull = Inr ''null''"
| "toString P (JBool b) = Inr (if b then ''true'' else ''false'')"
| "toString P (JNum n) = Inr (numberToString P n)"
| "toString P (JStr s) = Inr s"
| "toString P (JArr vs) =
     (case sequenceResults (map (\<lambda>v. if v = JNull then Inr [] else toString P v) vs) of
        Inl e \<Rightarrow> Inl e
      | Inr ss \<Rightarrow> Inr (intercalate '','' ss))"
| "toString P (JObj kvs) =
     (if map_of kvs ''toString'' = None then Inr ''[object Object]'' else Inl TypeError)"

text \<open>The class \<^verbatim>\<open>[a-zA-Z0-9_-]\<close> and \<^verbatim>\<open>replace(/[^a-zA-Z0-9_-]/g, '_')\<close>.\<close>

definition safeChar :: "char \<Rightarrow> bool" where
  "safeChar c =
     ((CHR ''a'' \<le> c \<and> c \<le> CHR ''z'') \<or> (CHR ''A'' \<le> c \<and> c \<le> CHR ''Z'') \<or>
      (CHR ''0'' \<le> c \<and> c \<le> CHR ''9'') \<or> c = CHR ''_'' \<or> c = CHR ''-'')"

definition sanitize :: "string \<Rightarrow> string" where
  "sanitize s = map (\<lambda>c. if safeChar c then c else CHR ''_'') s"

text \<open>
  \<^verbatim>\<open>getFilename\<close>: \<open>Inl\<close> when one of the three conversions throws. The conversation
  id is converted first, then the timestamp and the type in the template literal.
\<close>

definition getFilename :: "platform \<Rightarrow> int \<Rightarrow> json \<Rightarrow> error + string" where
  "getFilename P nowMs payload =
     (let type = nullish (getProp (Some payload) ''type'') (JStr ''unknown'');
          conversationId =
            nullish (getProp (getProp (Some payload) ''data'') ''conversation_id'')
              (JStr ''no_conversation'');
          eventTs = nullish (getProp (Some payload) ''event_timestamp'')
              (JNum (Finite (of_int nowMs)))
      in case toString P conversationId of
           Inl e \<Rightarrow> Inl e
         | Inr conv \<Rightarrow>
             (let safeConv = sanitize conv
              in case toString P eventTs of
                   Inl e \<Rightarrow> Inl e
                 | Inr ts \<Rightarrow>
                     (case toString P type of
                        Inl e \<Rightarrow> Inl e
                      | Inr ty \<Rightarrow> Inr (ts @ ''_'' @ ty @ ''_'' @ safeConv @ ''.json''))))"

subsection \<open>The file system\<close>

text \<open>
  A path is the list of its components from the root (POSIX). The file system is an
  association list from paths to nodes; the root is always a directory.
\<close>

type_synonym path = "string list"

datatype node = Dir | File string

type_synonym filesystem = "(path \<times> node) list"

definition lookup :: "filesystem \<Rightarrow> path \<Rightarrow> node option" where
  "lookup fs p = (if p = [] then Some Dir else map_of fs p)"

fun splitSlash :: "string \<Rightarrow> string list" where
  "splitSlash [] = [[]]"
| "splitSlash (c # cs) =
     (if c = CHR ''/'' then [] # splitSlash cs
      else (case splitSlash cs of [] \<Rightarrow> [[c]] | w # ws \<Rightarrow> (c # w) # ws))"

text \<open>
  \<^verbatim>\<open>path.join(dir, name)\<close> for a normalized absolute \<open>dir\<close>: the components of
  \<open>name\<close> are appended, an empty one and \<open>.\<close> are dropped, \<open>..\<close> removes the component
  before it (the root stays the root).
\<close>

fun normalizePath :: "path \<Rightarrow> string list \<Rightarrow> path" where
  "normalizePath st [] = st"
| "normalizePath st (c # cs) =
     (if c = [] \<or> c = ''.'' then normalizePath st cs
      else if c = ''..'' then normalizePath (butlast st) cs
      else normalizePath (st @ [c]) cs)"

definition path_join :: "path \<Rightarrow> string \<Rightarrow> path" where
  "path_join dir name = normalizePath dir (splitSlash name)"

text \<open>\<^verbatim>\<open>path.join(process.cwd(), 'backend', 'data')\<close>\<close>

definition DATA_DIR :: "path \<Rightarrow> path" where
  "DATA_DIR cwd = cwd @ [''backend'', ''data'']"

text \<open>
  \<^verbatim>\<open>fs.mkdir(p, {recursive: true})\<close>: nothing to do when \<open>p\<close> is a directory;
  otherwise each missing ancestor and \<open>p\<close> are created, and a file in the way is an error.
\<close>

fun mkdirs :: "filesystem \<Rightarrow> path list \<Rightarrow> filesystem \<times> (error + unit)" where
  "mkdirs fs [] = (fs, Inr ())"
| "mkdirs fs (p # ps) =
     (case lookup fs p of
        Some Dir \<Rightarrow> mkdirs fs ps
      | Some (File c) \<Rightarrow> (fs, Inl (if ps = [] then EEXIST else ENOTDIR))
      | None \<Rightarrow> mkdirs (AList.update p Dir fs) ps)"

definition mkdir_recursive :: "filesystem \<Rightarrow> path \<Rightarrow> filesystem \<times> (error + unit)" where
  "mkdir_recursive fs p =
     (if lookup fs p = Some Dir then (fs, Inr ())
      else mkdirs fs (map (\<lambda>n. take n p) [1..<Suc (length p)]))"

text \<open>\<^verbatim>\<open>fs.readdir(d)\<close>: the names of the entries of the directory \<open>d\<close>.\<close>

definition readdir :: "filesystem \<Rightarrow> path \<Rightarrow> error + string list" where
  "readdir fs d =
     (case lookup fs d of
        None \<Rightarrow> Inl ENOENT
      | Some (File c) \<Rightarrow> Inl ENOTDIR
      | Some Dir \<Rightarrow>
          Inr (map (\<lambda>(p, n). last p)
                (filter (\<lambda>(p, n). p \<noteq> [] \<and> butlast p = d) (AList.clearjunk fs))))"

definition readFile :: "filesystem \<Rightarrow> path \<Rightarrow> error + string" where
  "readFile fs p =
     (case lookup fs p of
        None \<Rightarrow> Inl ENOENT
      | Some Dir \<Rightarrow> Inl EISDIR
      | Some (File c) \<Rightarrow> Inr c)"

text \<open>A name that has more bytes in UTF-8 than the file system takes.\<close>

definition tooLong :: "platform \<Rightarrow> string \<Rightarrow> bool" where
  "tooLong P name = (NAME_MAX P < length (utf8 name))"

text \<open>
  The way down to a file, through the directories that are to hold it, from the root on:
  a name that is too long is ENAMETOOLONG, a regular file on the way is ENOTDIR, a missing
  directory is ENOENT. The first of them ends the walk.
\<close>

fun walk :: "platform \<Rightarrow> filesystem \<Rightarrow> path list \<Rightarrow> error option" where
  "walk P fs [] = None"
| "walk P fs (d # ds) =
     (if d \<noteq> [] \<and> tooLong P (last d) then Some ENAMETOOLONG
      else
        (case lookup fs d of
           Some Dir \<Rightarrow> walk P fs ds
         | Some (File c) \<Rightarrow> Some ENOTDIR
         | None \<Rightarrow> Some ENOENT))"

text \<open>The bytes of a path: each component in UTF-8 and the separator before it.\<close>

definition pathBytes :: "path \<Rightarrow> nat" where
  "pathBytes p = sum_list (map (\<lambda>c. Suc (length (utf8 c))) p)"

text \<open>
  \<^verbatim>\<open>fs.writeFile(p, content)\<close>: creates or replaces the file \<open>p\<close>. Node refuses a path
  with a NUL character before it calls the file system. The file system refuses a path
  that is too long, then walks down to the file, and refuses a name of the file that is
  too long and a \<open>p\<close> that is a directory.
\<close>

definition writeFile ::
  "platform \<Rightarrow> filesystem \<Rightarrow> path \<Rightarrow> string \<Rightarrow> filesystem \<times> (error + unit)" where
  "writeFile P fs p content =
     (if list_ex (\<lambda>c. CHR 0x00 \<in> set c) p then (fs, Inl ERR_INVALID_ARG_VALUE)
      else if PATH_MAX P \<le> pathBytes p then (fs, Inl ENAMETOOLONG)
      else
        (case walk P fs (map (\<lambda>n. take n p) [1..<length p]) of
           Some e \<Rightarrow> (fs, Inl e)
         | None \<Rightarrow>
             (if p \<noteq> [] \<and> tooLong P (last p) then (fs, Inl ENAMETOOLONG)
              else
                (case lookup fs p of
                   Some Dir \<Rightarrow> (fs, Inl EISDIR)
                 | _ \<Rightarrow> (AList.update p (File content) fs, Inr ())))))"

subsection \<open>Save, list and get\<close>

definition ensureDir :: "path \<Rightarrow> filesystem \<Rightarrow> filesystem \<times> (error + unit)" where
  "ensureDir cwd fs = mkdir_recursive fs (DATA_DIR cwd)"

definition saveConversationPayload ::
  "platform \<Rightarrow> path \<Rightarrow> int \<Rightarrow> filesystem \<Rightarrow> json \<Rightarrow> filesystem \<times> (error + unit)" where
  "saveConversationPayload P cwd nowMs fs payload =
     (case ensureDir cwd fs of
        (fs1, Inl e) \<Rightarrow> (fs1, Inl e)
      | (fs1, Inr u) \<Rightarrow>
          (case getFilename P nowMs payload of
             Inl e \<Rightarrow> (fs1, Inl e)
           | Inr filename \<Rightarrow>
               (let filePath = path_join (DATA_DIR cwd) filename
                in writeFile P fs1 filePath (JSON_stringify P payload))))"

text \<open>\<^verbatim>\<open>files.slice(0, limit)\<close> for an integer limit: a negative one counts from the end.\<close>

definition slice0 :: "'a list \<Rightarrow> int \<Rightarrow> 'a list" where
  "slice0 xs k = (if k < 0 then take (nat (int (length xs) + k)) xs else take (nat k) xs)"

text \<open>
  The loop of \<^verbatim>\<open>getAllConversations\<close>: the read is outside the \<^verbatim>\<open>try\<close>, so a
  failed read ends the call; a content that does not parse is skipped.
\<close>

fun readItems ::
  "platform \<Rightarrow> filesystem \<Rightarrow> path \<Rightarrow> string list \<Rightarrow> json list \<Rightarrow> error + json list" where
  "readItems P fs dir [] items = Inr items"
| "readItems P fs dir (file # rest) items =
     (case readFile fs (path_join dir file) of
        Inl e \<Rightarrow> Inl e
      | Inr content \<Rightarrow>
          (case JSON_parse P content of
             Some v \<Rightarrow> readItems P fs dir rest (items @ [v])
           | None \<Rightarrow> readItems P fs dir rest items))"

definition getAllConversations ::
  "platform \<Rightarrow> path \<Rightarrow> filesystem \<Rightarrow> int option \<Rightarrow> filesystem \<times> (error + json list)" where
  "getAllConversations P cwd fs limit_arg =
     (case ensureDir cwd fs of
        (fs1, Inl e) \<Rightarrow> (fs1, Inl e)
      | (fs1, Inr u) \<Rightarrow>
          (case readdir fs1 (DATA_DIR cwd) of
             Inl e \<Rightarrow> (fs1, Inl e)
           | Inr entries \<Rightarrow>
               (let files = rev (sort (filter (\<lambda>f. endsWith f ''.json'') entries));
                    limit = (case limit_arg of None \<Rightarrow> 100 | Some l \<Rightarrow> l);
                    selected = slice0 files limit
                in (fs1, readItems P fs1 (DATA_DIR cwd) selected []))))"

text \<open>\<^verbatim>\<open>getConversationById\<close>: \<open>JNull\<close> is the \<^verbatim>\<open>null\<close> it returns for not found.\<close>

definition getConversationById ::
  "platform \<Rightarrow> path \<Rightarrow> filesystem \<Rightarrow> string \<Rightarrow> filesystem \<times> (error + json)" where
  "getConversationById P cwd fs conversationId =
     (case ensureDir cwd fs of
        (fs1, Inl e) \<Rightarrow> (fs1, Inl e)
      | (fs1, Inr u) \<Rightarrow>
          (case readdir fs1 (DATA_DIR cwd) of
             Inl e \<Rightarrow> (fs1, Inl e)
           | Inr entries \<Rightarrow>
               (let matched =
                      rev (sort (filter
                        (\<lambda>f. includes_str f conversationId \<and> endsWith f ''.json'') entries))
                in case matched of
                     [] \<Rightarrow> (fs1, Inr JNull)
                   | m # ms \<Rightarrow>
                       (case readFile fs1 (path_join (DATA_DIR cwd) m) of
                          Inl e \<Rightarrow> (fs1, Inl e)
                        | Inr content \<Rightarrow>
                            (case JSON_parse P content of
                               Some v \<Rightarrow> (fs1, Inr v)
                             | None \<Rightarrow> (fs1, Inr JNull))))))"

section \<open>The routes\<close>

record response =
  status :: nat
  body :: json

record request =
  signatureHeader :: "string option"
  timestampHeader :: "string option"
  requestBody :: "byte list option"

text \<open>\<^verbatim>\<open>x || ''\<close> for a header or an environment variable that may be missing.\<close>

definition orEmpty :: "string option \<Rightarrow> string" where
  "orEmpty x = (case x of None \<Rightarrow> [] | Some s \<Rightarrow> s)"

definition invalidPayload :: response where
  "invalidPayload = \<lparr>status = 400, body = JObj [(''error'', JStr ''Invalid payload'')]\<rparr>"

text \<open>
  \<^verbatim>\<open>POST /webhooks/elevenlabs\<close>. \<open>env_secret\<close> is \<^verbatim>\<open>process.env.WEBHOOK_SECRET\<close>;
  \<open>nowMs\<close> and \<open>saveMs\<close> are the clock readings of the verifier and of the store. The
  whole body of the handler is inside \<^verbatim>\<open>try\<close>: whatever throws answers 400.
  \<open>requestBody\<close> is the buffer that the raw-body middleware has read, \<open>None\<close> when it
  has left \<^verbatim>\<open>req.body\<close> undefined. A request that the middleware answers itself (a body
  over its limit) and one that it hands on with a body that is not a buffer are not a
  \<open>request\<close> of this model.
\<close>

definition webhookPost ::
  "platform \<Rightarrow> path \<Rightarrow> string option \<Rightarrow> int \<Rightarrow> int \<Rightarrow> filesystem \<Rightarrow> request
     \<Rightarrow> filesystem \<times> response" where
  "webhookPost P cwd env_secret nowMs saveMs fs req =
     (let signature = orEmpty (signatureHeader req);
          timestamp = orEmpty (timestampHeader req);
          secret = orEmpty env_secret
      in if secret = [] then
           (fs, \<lparr>status = 500, body = JObj [(''error'', JStr ''Webhook secret not configured'')]\<rparr>)
         else
           (let rawBody = (case requestBody req of None \<Rightarrow> [] | Some b \<Rightarrow> b)
            in case verifySignature P nowMs
                   \<lparr>rawBody = rawBody, signature = signature, timestamp = timestamp,
                    secret = secret, maxSkewSeconds = None\<rparr> of
                 Inl e \<Rightarrow> (fs, invalidPayload)
               | Inr False \<Rightarrow>
                   (fs, \<lparr>status = 401, body = JObj [(''error'', JStr ''Invalid signature'')]\<rparr>)
               | Inr True \<Rightarrow>
                   (let textBody = bufferToString P rawBody
                    in case JSON_parse P textBody of
                         None \<Rightarrow> (fs, invalidPayload)
                       | Some payload \<Rightarrow>
                           (let payloadType = getProp (Some payload) ''type''
                            in if payloadType \<noteq> Some (JStr ''post_call_transcription'') \<and>
                                  payloadType \<noteq> Some (JStr ''post_call_audio'')
                               then
                                 (case saveConversationPayload P cwd saveMs fs payload of
                                    (fs1, Inl e) \<Rightarrow> (fs1, invalidPayload)
                                  | (fs1, Inr u) \<Rightarrow>
                                      (fs1, \<lparr>status = 202,
                                         body = JObj [(''status'', JStr ''ignored''),
                                                      (''reason'', JStr ''unknown_type'')]\<rparr>))
                               else
                                 (case saveConversationPayload P cwd saveMs fs payload of
                                    (fs1, Inl e) \<Rightarrow> (fs1, invalidPayload)
                                  | (fs1, Inr u) \<Rightarrow>
                                      (fs1, \<lparr>status = 200,
                                         body = JObj [(''ok'', JBool True)]\<rparr>))))))"

text \<open>\<^verbatim>\<open>!item\<close>: the values that count as false.\<close>

fun falsy :: "json \<Rightarrow> bool" where
  "falsy JNull = True"
| "falsy (JBool b) = (\<not> b)"
| "falsy (JNum n) = (n = Finite 0 \<or> n = NaN)"
| "falsy (JStr s) = (s = [])"
| "falsy v = False"

text \<open>
  \<^verbatim>\<open>GET /conversations\<close> and \<^verbatim>\<open>GET /conversations/:conversationId\<close>. Neither
  handler catches: \<open>Inl\<close> is a rejected handler, which sends no response.
\<close>

definition listConversations ::
  "platform \<Rightarrow> path \<Rightarrow> filesystem \<Rightarrow> filesystem \<times> (error + response)" where
  "listConversations P cwd fs =
     (case getAllConversations P cwd fs (Some 50) of
        (fs1, Inl e) \<Rightarrow> (fs1, Inl e)
      | (fs1, Inr items) \<Rightarrow>
          (fs1, Inr \<lparr>status = 200, body = JObj [(''items'', JArr items)]\<rparr>))"

definition getConversation ::
  "platform \<Rightarrow> path \<Rightarrow> filesystem \<Rightarrow> string \<Rightarrow> filesystem \<times> (error + response)" where
  "getConversation P cwd fs conversationId =
     (case getConversationById P cwd fs conversationId of
        (fs1, Inl e) \<Rightarrow> (fs1, Inl e)
      | (fs1, Inr item) \<Rightarrow>
          (if falsy item then
             (fs1, Inr \<lparr>status = 404, body = JObj [(''error'', JStr ''Not found'')]\<rparr>)
           else (fs1, Inr \<lparr>status = 200, body = item\<rparr>)))"

text \<open>
  The \<open>event_timestamp\<close> of a payload when it is a non-negative integer below \<open>2^53\<close>:
  seconds since the epoch, as the sender assigns them.
\<close>

definition timestampSeconds :: "json \<Rightarrow> nat option" where
  "timestampSeconds p =
     (case getProp (Some p) ''event_timestamp'' of
        Some (JNum (Finite q)) \<Rightarrow>
          (if of_int \<lfloor>q\<rfloor> = q \<and> 0 \<le> q \<and> q < 2 ^ 53 then Some (nat \<lfloor>q\<rfloor>) else None)
      | _ \<Rightarrow> None)"

text \<open>
  A payload is stored under a name: the name is that of a record of the storage directory
  (it ends in \<open>.json\<close>) whose content can be read and parses to the payload.
\<close>

definition storedAs :: "platform \<Rightarrow> path \<Rightarrow> filesystem \<Rightarrow> string \<Rightarrow> json \<Rightarrow> bool" where
  "storedAs P cwd fs f q =
     (endsWith f ''.json'' \<and>
      (case readFile fs (path_join (DATA_DIR cwd) f) of
         Inl e \<Rightarrow> False
       | Inr c \<Rightarrow> JSON_parse P c = Some q))"

section \<open>An example platform\<close>

text \<open>
  The theorems below hold for every platform. Their examples run on this one. Its HMAC is
  tabulated at the three messages the examples sign under the key \<open>s3cret\<close> (the values
  are those of HMAC-SHA256); \<^verbatim>\<open>Number\<close> is given on strings of decimal digits;
  \<^verbatim>\<open>JSON.stringify(v, null, 2)\<close> is written out for values whose numbers are
  integers and whose strings need no escape beyond the quote and the backslash;
  \<^verbatim>\<open>JSON.parse\<close> reads the three request bodies and the texts of the payloads listed
  in \<open>example_payloads\<close>; \<^verbatim>\<open>Buffer.toString\<close> is tabulated at the three request
  bodies; a name has at most 255 bytes and a path fewer than 4096.
\<close>

definition quoteJSON :: "string \<Rightarrow> string" where
  "quoteJSON s =
     [CHR 0x22] @
     concat (map (\<lambda>c. if c = CHR 0x22 \<or> c = CHR 0x5C then [CHR 0x5C, c] else [c]) s) @
     [CHR 0x22]"

fun prettyJSON :: "nat \<Rightarrow> json \<Rightarrow> string" where
  "prettyJSON n JNull = ''null''"
| "prettyJSON n (JBool b) = (if b then ''true'' else ''false'')"
| "prettyJSON n (JNum (Finite q)) = showInt \<lfloor>q\<rfloor>"
| "prettyJSON n (JNum x) = ''null''"
| "prettyJSON n (JStr s) = quoteJSON s"
| "prettyJSON n (JArr []) = ''[]''"
| "prettyJSON n (JArr vs) =
     ''['' @ [CHR 0x0A] @
     intercalate ('','' @ [CHR 0x0A])
       (map (\<lambda>v. replicate (n + 2) CHR '' '' @ prettyJSON (n + 2) v) vs) @
     [CHR 0x0A] @ replicate n CHR '' '' @ '']''"
| "prettyJSON n (JObj []) = ''{}''"
| "prettyJSON n (JObj kvs) =
     ''{'' @ [CHR 0x0A] @
     intercalate ('','' @ [CHR 0x0A])
       (map (\<lambda>kv. replicate (n + 2) CHR '' '' @ quoteJSON (fst kv) @ '': '' @
                 prettyJSON (n + 2) (snd kv)) kvs) @
     [CHR 0x0A] @ replicate n CHR '' '' @ ''}''"

definition decimalNumber :: "string \<Rightarrow> jsnumber" where
  "decimalNumber s =
     (if s \<noteq> [] \<and> list_all (\<lambda>c. CHR ''0'' \<le> c \<and> c \<le> CHR ''9'') s
      then Finite (of_nat (fold (\<lambda>c n. 10 * n + (of_char c - 48)) s 0))
      else NaN)"

definition example_body_known :: string where
  \<open>example_body_known =
     ''{"type":"post_call_transcription","event_timestamp":1700000000,"data":{"conversation_id":"abc123"}}''\<close>

definition example_payload_known :: json where
  "example_payload_known =
     JObj [(''type'', JStr ''post_call_transcription''),
           (''event_timestamp'', JNum (Finite 1700000000)),
           (''data'', JObj [(''conversation_id'', JStr ''abc123'')])]"

definition example_body_slash :: string where
  \<open>example_body_slash =
     ''{"type":"a/b","event_timestamp":1700000000,"data":{"conversation_id":"abc123"}}''\<close>

definition example_payload_slash :: json where
  "example_payload_slash =
     JObj [(''type'', JStr ''a/b''),
           (''event_timestamp'', JNum (Finite 1700000000)),
           (''data'', JObj [(''conversation_id'', JStr ''abc123'')])]"

text \<open>A body whose type is an object with a member named \<open>toString\<close>.\<close>

definition example_body_object :: string where
  \<open>example_body_object = ''{"type":{"toString":1},"event_timestamp":1700000000}''\<close>

definition example_payload_object :: json where
  "example_payload_object =
     JObj [(''type'', JObj [(''toString'', JNum (Finite 1))]),
           (''event_timestamp'', JNum (Finite 1700000000))]"

text \<open>
  A payload whose type climbs out of the directory, one whose conversation id has a
  character that is replaced, and one whose conversation id ends like a record name.
\<close>

definition example_payload_traversal :: json where
  "example_payload_traversal =
     JObj [(''type'', JStr ''a/../../x''),
           (''event_timestamp'', JNum (Finite 1700000000)),
           (''data'', JObj [(''conversation_id'', JStr ''../../etc'')])]"

definition example_payload_conv :: json where
  "example_payload_conv =
     JObj [(''type'', JStr ''post_call_audio''),
           (''event_timestamp'', JNum (Finite 1700000000)),
           (''data'', JObj [(''conversation_id'', JStr ''conv/42'')])]"

definition example_payload_dotted :: json where
  "example_payload_dotted =
     JObj [(''type'', JStr ''post_call_audio''),
           (''event_timestamp'', JNum (Finite 1700000000)),
           (''data'', JObj [(''conversation_id'', JStr ''n.json'')])]"

text \<open>A payload that carries nothing but its \<open>event_timestamp\<close>.\<close>

definition stamped :: "nat \<Rightarrow> json" where
  "stamped n = JObj [(''event_timestamp'', JNum (Finite (of_nat n)))]"

definition example_payloads :: "json list" where
  "example_payloads =
     [example_payload_known, stamped 100, stamped 200, stamped 300, stamped 9, stamped 10,
      JObj [], stamped 1700000001, example_payload_conv, example_payload_dotted]"

definition example_hmac :: "byte list \<Rightarrow> byte list \<Rightarrow> byte list" where
  "example_hmac key msg =
     (if key = utf8 ''s3cret'' \<and> msg = utf8 (''1700000000.'' @ example_body_known)
      then hexDecode ''16739b193415d523bb672e7fba5a60e052f6b1add020717d2f53e51e53ce656a''
      else if key = utf8 ''s3cret'' \<and> msg = utf8 (''1700000000.'' @ example_body_slash)
      then hexDecode ''bc01d6bd5e0c912dab3fd09059ad648ff6169b4a5f5e3ef42a87cc5a581a7429''
      else if key = utf8 ''s3cret'' \<and> msg = utf8 (''1700000000.'' @ example_body_object)
      then hexDecode ''4c528dbad7ebe6078188e739d7c40a8e11ddf5d9a4ad9d9cb3a7f7b5adcc0066''
      else replicate 32 0)"

definition example_parse :: "string \<Rightarrow> json option" where
  "example_parse s =
     (if s = example_body_known then Some example_payload_known
      else if s = example_body_slash then Some example_payload_slash
      else if s = example_body_object then Some example_payload_object
      else List.find (\<lambda>v. prettyJSON 0 v = s) example_payloads)"

definition example_toString :: "byte list \<Rightarrow> string" where
  "example_toString bs =
     (if bs = utf8 example_body_known then example_body_known
      else if bs = utf8 example_body_slash then example_body_slash
      else if bs = utf8 example_body_object then example_body_object
      else [])"

definition example_platform :: platform where
  "example_platform =
     \<lparr>hmac_sha256 = example_hmac,
      toNumber = decimalNumber,
      formatNumber = (\<lambda>q. ''NaN''),
      bufferToString = example_toString,
      JSON_parse = example_parse,
      JSON_stringify = prettyJSON 0,
      NAME_MAX = 255,
      PATH_MAX = 4096\<rparr>"

text \<open>The working directory of the examples, and a file system that holds nothing else.\<close>

definition example_cwd :: path where
  "example_cwd = [''srv'', ''app'']"

definition example_fs :: filesystem where
  "example_fs = [([''srv''], Dir), ([''srv'', ''app''], Dir)]"

text \<open>
  A store with two records that carry the id \<open>abc123\<close>, the newer one with a content
  that is not JSON, and a file that is not a record.
\<close>

definition example_store :: filesystem where
  "example_store =
     example_fs @
     [([''srv'', ''app'', ''backend''], Dir),
      ([''srv'', ''app'', ''backend'', ''data''], Dir),
      ([''srv'', ''app'', ''backend'', ''data'',
        ''1700000000_post_call_transcription_abc123.json''],
       File (prettyJSON 0 example_payload_known)),
      ([''srv'', ''app'', ''backend'', ''data'',
        ''1700000050_post_call_transcription_abc123.json''],
       File ''not json''),
      ([''srv'', ''app'', ''backend'', ''data'', ''notes.txt''], File ''hello'')]"

section \<open>Hexadecimal digests and the comparison\<close>

lemma unhex_hexdigit: "n < 16 \<Longrightarrow> unhex (hexdigit n) = Some n"
proof -
  assume "n < 16"
  then have "n \<in> set [0..<16]" by simp
  then show ?thesis
    by (simp add: upt_rec hexdigit_def unhex_def) (elim disjE; simp)
qed

lemma hexDecode_hexByte: "hexDecode (hexByte b @ cs) = b # hexDecode cs"
proof -
  have "unat b < 2 ^ LENGTH(8)" by (rule unsigned_less)
  then have "unat b < 256" by simp
  then have d: "unat b div 16 < 16" by simp
  have m: "unat b mod 16 < 16" by simp
  show ?thesis
    by (simp add: hexByte_def unhex_hexdigit [OF d] unhex_hexdigit [OF m])
qed

lemma hexDecode_hexEncode: "hexDecode (hexEncode bs) = bs"
  by (induction bs) (simp_all add: hexEncode_def hexDecode_hexByte)

lemma fold_or_xor_zero:
  "length a = length b \<Longrightarrow>
   (fold (\<lambda>(x, y) acc. acc OR (x XOR y)) (zip a b) (acc :: byte) = 0) = (acc = 0 \<and> a = b)"
proof (induction a b arbitrary: acc rule: list_induct2)
  case Nil
  then show ?case by simp
next
  case (Cons x xs y ys)
  have "(acc OR (x XOR y) = 0) = (acc = 0 \<and> x = y)"
    by (metis bit.xor_left_self or_eq_0_iff xor.right_neutral)
  then show ?case
    by (auto simp add: Cons.IH)
qed

lemma timingSafeEqual_eq: "length a = length b \<Longrightarrow> timingSafeEqual a b = Inr (a = b)"
  by (simp add: timingSafeEqual_def fold_or_xor_zero)

lemma verifySignature_compare:
  assumes "signature args \<noteq> []" "timestamp args \<noteq> []" "secret args \<noteq> []"
    and "toNumber P (timestamp args) = Finite ts"
    and "\<not> exceeds \<bar>of_int (nowMs div 1000) - ts\<bar> (skewLimit args)"
  shows "verifySignature P nowMs args =
           Inr (hexDecode (providedDigest (signature args)) = expectedDigest P args)"
proof (cases "length (expectedDigest P args) = length (hexDecode (providedDigest (signature args)))")
  case True
  then show ?thesis
    using assms by (auto simp add: verifySignature_def Let_def hexDecode_hexEncode timingSafeEqual_eq)
next
  case False
  then show ?thesis
    using assms by (auto simp add: verifySignature_def Let_def hexDecode_hexEncode)
qed

text \<open>
  The comparison as a function of the two decoded buffers: buffers of different lengths
  give false, buffers of one length give the equality of all their bytes. How long the
  comparison takes is not a part of this model.
\<close>

lemma verifySignature_length_mismatch:
  assumes "signature args \<noteq> []" "timestamp args \<noteq> []" "secret args \<noteq> []"
    and "toNumber P (timestamp args) = Finite ts"
    and "\<not> exceeds \<bar>of_int (nowMs div 1000) - ts\<bar> (skewLimit args)"
    and "length (hexDecode (providedDigest (signature args))) \<noteq> length (expectedDigest P args)"
  shows "verifySignature P nowMs args = Inr False"
proof -
  from assms(6) have "hexDecode (providedDigest (signature args)) \<noteq> expectedDigest P args"
    by auto
  with verifySignature_compare [OF assms(1-5)] show ?thesis by simp
qed

lemma verifySignature_skew:
  assumes "toNumber P (timestamp args) = Finite ts"
    and "exceeds \<bar>of_int (nowMs div 1000) - ts\<bar> (skewLimit args)"
  shows "verifySignature P nowMs args = Inr False"
  using assms by (auto simp add: verifySignature_def Let_def)

lemma verifySignature_not_finite:
  "\<forall>ts. toNumber P (timestamp args) \<noteq> Finite ts \<Longrightarrow> verifySignature P nowMs args = Inr False"
  by (cases "toNumber P (timestamp args)") (auto simp add: verifySignature_def Let_def)

lemma verifySignature_never_throws: "verifySignature P nowMs args \<noteq> Inl e"
  by (cases "toNumber P (timestamp args)")
    (auto simp add: verifySignature_def Let_def hexDecode_hexEncode timingSafeEqual_eq)

lemma verifySignature_cases:
  "verifySignature P nowMs args = Inr True \<or> verifySignature P nowMs args = Inr False"
  using verifySignature_never_throws [of P nowMs args]
  by (cases "verifySignature P nowMs args") auto

lemma skewLimit_default: "maxSkewSeconds args = None \<Longrightarrow> skewLimit args = Finite 300"
  by (simp add: skewLimit_def)

lemmas example_verify_defs =
  verifySignature_def skewLimit_def example_platform_def decimalNumber_def example_hmac_def
  utf8_def utf8_char_def example_body_known_def example_body_slash_def expectedDigest_def
  providedDigest_def startsWith_def hexEncode_def hexByte_def hexdigit_def unhex_def
  timingSafeEqual_def

section \<open>Accepted signatures and the replay window\<close>

text \<open>
  C1 (as amended). With a non-empty signature, timestamp and secret, a timestamp that
  parses to a finite number and lies within the skew window, the verifier returns true
  exactly when the signature, after the optional prefix \<open>sha256=\<close> is stripped, decodes
  (as Node decodes hexadecimal text) to the bytes of the HMAC of timestamp, dot and body
  under the secret, and returns false otherwise. The lower-case hexadecimal digest is such
  a signature.
\<close>

theorem verifySignature_accepts_decoded_digest:
  assumes "signature args \<noteq> []" and "timestamp args \<noteq> []" and "secret args \<noteq> []"
    and "toNumber P (timestamp args) = Finite ts"
    and "\<not> exceeds \<bar>of_int (nowMs div 1000) - ts\<bar> (skewLimit args)"
  shows "((verifySignature P nowMs args = Inr True) =
            (hexDecode (providedDigest (signature args)) =
               hmac_sha256 P (utf8 (secret args)) (utf8 (timestamp args @ ''.'') @ rawBody args))) \<and>
         ((verifySignature P nowMs args = Inr False) =
            (hexDecode (providedDigest (signature args)) \<noteq>
               hmac_sha256 P (utf8 (secret args)) (utf8 (timestamp args @ ''.'') @ rawBody args))) \<and>
         (providedDigest (signature args) =
            hexEncode (hmac_sha256 P (utf8 (secret args))
              (utf8 (timestamp args @ ''.'') @ rawBody args))
          \<longrightarrow> verifySignature P nowMs args = Inr True)"
  using verifySignature_compare [OF assms]
  by (auto simp add: expectedDigest_def hexDecode_hexEncode)

text \<open>The example: the lower-case digest behind the prefix \<open>sha256=\<close> is accepted.\<close>

theorem verifySignature_accepts_decoded_digest_witness:
  "verifySignature example_platform 1700000000000
     \<lparr>rawBody = utf8 example_body_known,
      signature = ''sha256=16739b193415d523bb672e7fba5a60e052f6b1add020717d2f53e51e53ce656a'',
      timestamp = ''1700000000'', secret = ''s3cret'', maxSkewSeconds = None\<rparr> = Inr True"
  using verifySignature_accepts_decoded_digest [of
      "\<lparr>rawBody = utf8 example_body_known,
        signature = ''sha256=16739b193415d523bb672e7fba5a60e052f6b1add020717d2f53e51e53ce656a'',
        timestamp = ''1700000000'', secret = ''s3cret'', maxSkewSeconds = None\<rparr>"
      example_platform 1700000000 1700000000000]
  by (simp add: example_verify_defs)

text \<open>
  C1 (counterexample). The digest written in upper case, and the digest followed by two
  characters that are not hexadecimal digits, are not the hexadecimal encoding of the
  HMAC, and the verifier accepts both.
\<close>

theorem verifySignature_accepts_upper_case:
  "verifySignature example_platform 1700000000000
     \<lparr>rawBody = utf8 example_body_known,
      signature = ''16739B193415D523BB672E7FBA5A60E052F6B1ADD020717D2F53E51E53CE656A'',
      timestamp = ''1700000000'', secret = ''s3cret'', maxSkewSeconds = None\<rparr> = Inr True \<and>
   providedDigest ''16739B193415D523BB672E7FBA5A60E052F6B1ADD020717D2F53E51E53CE656A'' \<noteq>
     hexEncode (hmac_sha256 example_platform (utf8 ''s3cret'')
       (utf8 (''1700000000'' @ ''.'') @ utf8 example_body_known)) \<and>
   verifySignature example_platform 1700000000000
     \<lparr>rawBody = utf8 example_body_known,
      signature = ''sha256=16739b193415d523bb672e7fba5a60e052f6b1add020717d2f53e51e53ce656azz'',
      timestamp = ''1700000000'', secret = ''s3cret'', maxSkewSeconds = None\<rparr> = Inr True \<and>
   providedDigest ''sha256=16739b193415d523bb672e7fba5a60e052f6b1add020717d2f53e51e53ce656azz'' \<noteq>
     hexEncode (hmac_sha256 example_platform (utf8 ''s3cret'')
       (utf8 (''1700000000'' @ ''.'') @ utf8 example_body_known))"
  by (simp add: example_verify_defs)

text \<open>
  C3. Under the default \<open>maxSkewSeconds\<close> of 300: a timestamp that does not parse to a
  finite number is rejected; for one that parses to \<open>ts\<close>, the verifier rejects exactly
  when \<open>|now - ts| > 300\<close> or another check fails (an empty signature, timestamp or
  secret, or a digest that does not match). So a difference of exactly 300 seconds, either
  way, is not rejected by the skew check.
\<close>

theorem replay_window:
  assumes "maxSkewSeconds args = None"
  shows "case toNumber P (timestamp args) of
           Finite ts \<Rightarrow>
             (verifySignature P nowMs args = Inr False) =
               (300 < \<bar>of_int (nowMs div 1000) - ts\<bar> \<or>
                signature args = [] \<or> timestamp args = [] \<or> secret args = [] \<or>
                hexDecode (providedDigest (signature args)) \<noteq> expectedDigest P args)
         | _ \<Rightarrow> verifySignature P nowMs args = Inr False"
proof (cases "toNumber P (timestamp args)")
  case (Finite ts)
  have lim: "skewLimit args = Finite 300"
    using assms by (rule skewLimit_default)
  show ?thesis
  proof (cases "300 < \<bar>of_int (nowMs div 1000) - ts\<bar>")
    case True
    then have "verifySignature P nowMs args = Inr False"
      using Finite lim by (intro verifySignature_skew [where ts = ts]) simp_all
    with True Finite show ?thesis by simp
  next
    case far: False
    show ?thesis
    proof (cases "signature args = [] \<or> timestamp args = [] \<or> secret args = []")
      case True
      then have "verifySignature P nowMs args = Inr False"
        by (auto simp add: verifySignature_def Let_def)
      with True Finite show ?thesis by auto
    next
      case False
      then have "verifySignature P nowMs args =
          Inr (hexDecode (providedDigest (signature args)) = expectedDigest P args)"
        using Finite far lim by (intro verifySignature_compare [where ts = ts]) simp_all
      with False far Finite show ?thesis by simp
    qed
  qed
qed (simp_all add: verifySignature_not_finite)

text \<open>
  The example: a valid signature is accepted 300 seconds after and 300 seconds before its
  timestamp, and rejected at 301 seconds either way.
\<close>

theorem replay_window_witness:
  "verifySignature example_platform 1700000300000
     \<lparr>rawBody = utf8 example_body_known,
      signature = ''16739b193415d523bb672e7fba5a60e052f6b1add020717d2f53e51e53ce656a'',
      timestamp = ''1700000000'', secret = ''s3cret'', maxSkewSeconds = None\<rparr> \<noteq> Inr False \<and>
   verifySignature example_platform 1699999700000
     \<lparr>rawBody = utf8 example_body_known,
      signature = ''16739b193415d523bb672e7fba5a60e052f6b1add020717d2f53e51e53ce656a'',
      timestamp = ''1700000000'', secret = ''s3cret'', maxSkewSeconds = None\<rparr> \<noteq> Inr False \<and>
   verifySignature example_platform 1700000301000
     \<lparr>rawBody = utf8 example_body_known,
      signature = ''16739b193415d523bb672e7fba5a60e052f6b1add020717d2f53e51e53ce656a'',
      timestamp = ''1700000000'', secret = ''s3cret'', maxSkewSeconds = None\<rparr> = Inr False \<and>
   verifySignature example_platform 1699999699999
     \<lparr>rawBody = utf8 example_body_known,
      signature = ''16739b193415d523bb672e7fba5a60e052f6b1add020717d2f53e51e53ce656a'',
      timestamp = ''1700000000'', secret = ''s3cret'', maxSkewSeconds = None\<rparr> = Inr False"
proof -
  let ?args = "\<lparr>rawBody = utf8 example_body_known,
      signature = ''16739b193415d523bb672e7fba5a60e052f6b1add020717d2f53e51e53ce656a'',
      timestamp = ''1700000000'', secret = ''s3cret'', maxSkewSeconds = None\<rparr>"
  have n: "toNumber example_platform (timestamp ?args) = Finite 1700000000"
    by (simp add: example_platform_def decimalNumber_def)
  have d: "hexDecode (providedDigest (signature ?args)) = expectedDigest example_platform ?args"
    by (simp add: example_verify_defs)
  have s: "maxSkewSeconds ?args = None" by simp
  show ?thesis
    using replay_window [OF s, of example_platform 1700000300000]
      replay_window [OF s, of example_platform 1699999700000]
      replay_window [OF s, of example_platform 1700000301000]
      replay_window [OF s, of example_platform 1699999699999]
    unfolding n d by simp
qed

section \<open>The file system\<close>

lemma lookup_update:
  "lookup (AList.update q v fs) p = (if p = [] then Some Dir else if p = q then Some v else lookup fs p)"
  by (simp add: lookup_def update_conv')

lemma lookup_root: "lookup fs [] = Some Dir"
  by (simp add: lookup_def)

lemma mkdirs_files:
  "mkdirs fs ps = (fs1, r) \<Longrightarrow> (lookup fs1 p = Some (File c)) = (lookup fs p = Some (File c))"
proof (induction ps arbitrary: fs)
  case Nil
  then show ?case by simp
next
  case (Cons q qs)
  show ?case
  proof (cases "lookup fs q")
    case None
    with Cons.prems have "mkdirs (AList.update q Dir fs) qs = (fs1, r)" by simp
    from Cons.IH [OF this] None show ?thesis
      by (auto simp add: lookup_update lookup_root)
  next
    case (Some n)
    with Cons show ?thesis by (cases n) auto
  qed
qed

lemma ensureDir_files:
  "ensureDir cwd fs = (fs1, r) \<Longrightarrow> (lookup fs1 p = Some (File c)) = (lookup fs p = Some (File c))"
  by (auto simp add: ensureDir_def mkdir_recursive_def mkdirs_files split: if_splits)

lemma ensureDir_existing:
  "lookup fs (DATA_DIR cwd) = Some Dir \<Longrightarrow> ensureDir cwd fs = (fs, Inr ())"
  by (simp add: ensureDir_def mkdir_recursive_def)

lemma readdir_Inr_Dir: "readdir fs d = Inr ns \<Longrightarrow> lookup fs d = Some Dir"
  by (auto simp add: readdir_def split: option.splits node.splits)

lemma walk_None: "walk P fs ds = None \<Longrightarrow> \<forall>d \<in> set ds. lookup fs d = Some Dir"
  by (induction ds) (auto split: option.splits node.splits if_splits)

lemma writeFile_ok:
  "writeFile P fs p content = (fs1, Inr u) \<Longrightarrow>
     fs1 = AList.update p (File content) fs \<and> p \<noteq> [] \<and> lookup fs p \<noteq> Some Dir"
  by (auto simp add: writeFile_def lookup_def split: option.splits node.splits if_splits)

lemma writeFile_parent:
  assumes "writeFile P fs p content = (fs1, Inr u)"
  shows "lookup fs (butlast p) = Some Dir"
proof (cases "length p \<le> 1")
  case True
  then have "butlast p = []" by (cases p) auto
  then show ?thesis by (simp add: lookup_root)
next
  case False
  from assms have "walk P fs (map (\<lambda>n. take n p) [1..<length p]) = None"
    by (auto simp add: writeFile_def split: option.splits if_splits)
  from walk_None [OF this] have "\<forall>n \<in> {1..<length p}. lookup fs (take n p) = Some Dir"
    by simp
  moreover from False have "1 \<le> length p - 1" and "length p - 1 < length p" by linarith+
  then have "length p - 1 \<in> {1..<length p}" by simp
  ultimately have "lookup fs (take (length p - 1) p) = Some Dir" by (rule bspec)
  then show ?thesis by (simp add: butlast_conv_take)
qed

lemma writeFile_failed: "writeFile P fs p content = (fs1, Inl e) \<Longrightarrow> fs1 = fs"
  by (auto simp add: writeFile_def split: option.splits node.splits if_splits)

lemma writeFile_read:
  "writeFile P fs p content = (fs1, Inr u) \<Longrightarrow> readFile fs1 p = Inr content"
  by (auto dest!: writeFile_ok simp add: readFile_def lookup_update)

lemma save_ok_name:
  assumes "saveConversationPayload P cwd nowMs fs payload = (fs1, Inr u)"
  shows "\<exists>f. getFilename P nowMs payload = Inr f"
  using assms
  by (auto simp add: saveConversationPayload_def split: prod.splits sum.splits)

lemma save_ok_read:
  assumes "saveConversationPayload P cwd nowMs fs payload = (fs1, Inr u)"
    and "getFilename P nowMs payload = Inr f"
  shows "readFile fs1 (path_join (DATA_DIR cwd) f) = Inr (JSON_stringify P payload)"
  using assms
  by (auto simp add: saveConversationPayload_def Let_def writeFile_read
      split: prod.splits sum.splits)

lemma save_failed_files:
  assumes "saveConversationPayload P cwd nowMs fs payload = (fs1, Inl e)"
  shows "(lookup fs1 p = Some (File c)) = (lookup fs p = Some (File c))"
  using assms
  by (auto simp add: saveConversationPayload_def Let_def ensureDir_files
      split: prod.splits sum.splits dest!: writeFile_failed)

section \<open>Reading the store\<close>

lemma readItems_map_filter:
  "\<forall>f \<in> set sel. \<exists>c. readFile fs (path_join dir f) = Inr c \<Longrightarrow>
   readItems P fs dir sel acc =
     Inr (acc @ List.map_filter
       (\<lambda>f. case readFile fs (path_join dir f) of Inl e \<Rightarrow> None | Inr c \<Rightarrow> JSON_parse P c) sel)"
proof (induction sel arbitrary: acc)
  case Nil
  then show ?case by (simp add: List.map_filter_simps)
next
  case (Cons f sel)
  then obtain c where c: "readFile fs (path_join dir f) = Inr c" by auto
  from Cons have "\<forall>f \<in> set sel. \<exists>c. readFile fs (path_join dir f) = Inr c" by simp
  note IH = Cons.IH [OF this]
  show ?case
    by (cases "JSON_parse P c") (simp_all add: c IH List.map_filter_simps)
qed

lemma set_slice0: "set (slice0 xs k) \<subseteq> set xs"
  by (auto simp add: slice0_def dest: in_set_takeD)

lemma splitSlash_plain: "CHR ''/'' \<notin> set s \<Longrightarrow> splitSlash s = [s]"
  by (induction s) auto

lemma path_join_plain:
  "CHR ''/'' \<notin> set name \<Longrightarrow> name \<noteq> [] \<Longrightarrow> name \<noteq> ''.'' \<Longrightarrow> name \<noteq> ''..'' \<Longrightarrow>
   path_join dir name = dir @ [name]"
  by (simp add: path_join_def splitSlash_plain)

lemmas example_fs_defs =
  example_store_def example_fs_def example_cwd_def DATA_DIR_def lookup_def readdir_def
  readFile_def writeFile_def pathBytes_def tooLong_def utf8_def utf8_char_def ensureDir_def
  mkdir_recursive_def path_join_def AList.clearjunk.simps AList.delete_eq endsWith_def
  startsWith_def slice0_def

lemma example_store_readdir:
  "readdir example_store (DATA_DIR example_cwd) =
     Inr [''1700000000_post_call_transcription_abc123.json'',
          ''1700000050_post_call_transcription_abc123.json'', ''notes.txt'']"
  by (simp add: example_fs_defs)

lemmas example_json_defs =
  example_platform_def example_parse_def example_body_known_def example_body_slash_def
  example_body_object_def example_payloads_def stamped_def example_payload_known_def example_payload_slash_def
  example_payload_traversal_def example_payload_conv_def example_payload_dotted_def
  quoteJSON_def showInt_def digits.simps digitChar_def

section \<open>Retrieval by id\<close>

lemma sorted_last_Max: "sorted xs \<Longrightarrow> xs \<noteq> [] \<Longrightarrow> last xs = Max (set xs)"
proof (induction xs)
  case Nil
  then show ?case by simp
next
  case (Cons x xs)
  show ?case
  proof (cases "xs = []")
    case True
    then show ?thesis by simp
  next
    case False
    with Cons have IH: "last xs = Max (set xs)" by simp
    have "x \<le> last xs" using Cons.prems False by auto
    with IH False show ?thesis by (simp add: max_absorb2)
  qed
qed

lemma sort_not_Nil: "xs \<noteq> [] \<Longrightarrow> sort xs \<noteq> []"
  by (metis length_0_conv length_sort)

lemma hd_rev_sort_Max:
  assumes "xs \<noteq> []"
  shows "hd (rev (sort xs)) = Max (set xs)"
proof -
  from assms have "sort xs \<noteq> []" by (rule sort_not_Nil)
  with sorted_last_Max [of "sort xs"] show ?thesis by (simp add: hd_rev)
qed

lemma getConversationById_Max:
  assumes "readdir fs (DATA_DIR cwd) = Inr entries"
    and "M = set (filter (\<lambda>f. includes_str f cid \<and> endsWith f ''.json'') entries)"
  shows "getConversationById P cwd fs cid =
     (fs, if M = {} then Inr JNull
          else (case readFile fs (path_join (DATA_DIR cwd) (Max M)) of
                  Inl e \<Rightarrow> Inl e
                | Inr c \<Rightarrow> (case JSON_parse P c of None \<Rightarrow> Inr JNull | Some v \<Rightarrow> Inr v)))"
proof -
  let ?ms = "filter (\<lambda>f. includes_str f cid \<and> endsWith f ''.json'') entries"
  have e: "ensureDir cwd fs = (fs, Inr ())"
    using assms(1) by (intro ensureDir_existing readdir_Inr_Dir)
  show ?thesis
  proof (cases "?ms = []")
    case True
    then have "M = {}" using assms(2) by simp
    with True show ?thesis
      by (simp add: getConversationById_def e assms(1))
  next
    case False
    have ne: "M \<noteq> {}" unfolding assms(2) set_empty by (rule False)
    from False have "rev (sort ?ms) \<noteq> []" by (simp add: sort_not_Nil)
    then obtain m ms where m: "rev (sort ?ms) = m # ms" by (cases "rev (sort ?ms)") auto
    then have "m = hd (rev (sort ?ms))" by simp
    also have "\<dots> = Max (set ?ms)" using False by (rule hd_rev_sort_Max)
    finally have "m = Max M" unfolding assms(2) .
    with m ne show ?thesis
      by (auto simp add: getConversationById_def e assms(1) split: sum.splits option.splits)
  qed
qed

lemma getConversation_404:
  "(snd (getConversation P cwd fs cid) =
      Inr \<lparr>status = 404, body = JObj [(''error'', JStr ''Not found'')]\<rparr>) =
   (\<exists>item. snd (getConversationById P cwd fs cid) = Inr item \<and> falsy item)"
  by (auto simp add: getConversation_def split: prod.splits sum.splits)

text \<open>
  C6 (as amended). Let \<open>M\<close> be the stored names that contain the requested id and end in
  \<open>.json\<close>. When \<open>M\<close> is empty, getById returns not found. Otherwise it reads the
  greatest name of \<open>M\<close>: it returns the parsed content, not found when the content does
  not parse, and it fails when the read fails; no other name of \<open>M\<close> is tried. The
  handler answers 404 exactly when getById returns a value that counts as false.
\<close>

theorem getConversationById_newest_match:
  assumes "readdir fs (DATA_DIR cwd) = Inr entries"
    and "M = set (filter (\<lambda>f. includes_str f cid \<and> endsWith f ''.json'') entries)"
  shows "(M = {} \<longrightarrow> getConversationById P cwd fs cid = (fs, Inr JNull)) \<and>
         (M \<noteq> {} \<longrightarrow>
            getConversationById P cwd fs cid =
              (fs, case readFile fs (path_join (DATA_DIR cwd) (Max M)) of
                     Inl e \<Rightarrow> Inl e
                   | Inr c \<Rightarrow> (case JSON_parse P c of None \<Rightarrow> Inr JNull | Some v \<Rightarrow> Inr v))) \<and>
         ((snd (getConversation P cwd fs cid) =
             Inr \<lparr>status = 404, body = JObj [(''error'', JStr ''Not found'')]\<rparr>) =
          (\<exists>item. snd (getConversationById P cwd fs cid) = Inr item \<and> falsy item))"
  using getConversationById_Max [OF assms, of P] getConversation_404 [of P cwd fs cid]
  by simp

text \<open>
  The example: in the example store one name contains \<open>1700000000\<close> and its record is
  returned; no name contains \<open>xyz\<close>.
\<close>

theorem getConversationById_newest_match_witness:
  "getConversationById example_platform example_cwd example_store ''1700000000'' =
     (example_store, Inr example_payload_known) \<and>
   getConversationById example_platform example_cwd example_store ''xyz'' =
     (example_store, Inr JNull)"
  using
    getConversationById_newest_match [OF example_store_readdir, of
      "{''1700000000_post_call_transcription_abc123.json''}" "''1700000000''" example_platform]
    getConversationById_newest_match [OF example_store_readdir, of
      "{}" "''xyz''" example_platform]
  by (simp add: example_fs_defs example_json_defs)

text \<open>
  C6 (counterexample). Two stored names contain the id \<open>abc123\<close>; the greater one holds
  text that is not JSON. getById returns not found and the handler answers 404.
\<close>

theorem getConversationById_not_found_despite_match:
  "readdir example_store (DATA_DIR example_cwd) =
     Inr [''1700000000_post_call_transcription_abc123.json'',
          ''1700000050_post_call_transcription_abc123.json'', ''notes.txt''] \<and>
   includes_str ''1700000000_post_call_transcription_abc123.json'' ''abc123'' \<and>
   getConversationById example_platform example_cwd example_store ''abc123'' =
     (example_store, Inr JNull) \<and>
   getConversation example_platform example_cwd example_store ''abc123'' =
     (example_store, Inr \<lparr>status = 404, body = JObj [(''error'', JStr ''Not found'')]\<rparr>)"
  by (simp add: getConversation_def getConversationById_def example_fs_defs example_json_defs)

section \<open>Listing the latest records\<close>

lemma getAllConversations_readable:
  assumes "readdir fs (DATA_DIR cwd) = Inr entries"
    and "\<forall>f \<in> set entries. endsWith f ''.json'' \<longrightarrow>
           (\<exists>c. readFile fs (path_join (DATA_DIR cwd) f) = Inr c)"
  shows "getAllConversations P cwd fs limit_arg =
     (fs, Inr (List.map_filter
        (\<lambda>f. case readFile fs (path_join (DATA_DIR cwd) f) of
                Inl e \<Rightarrow> None
              | Inr c \<Rightarrow> JSON_parse P c)
        (slice0 (rev (sort (filter (\<lambda>f. endsWith f ''.json'') entries)))
           (case limit_arg of None \<Rightarrow> 100 | Some l \<Rightarrow> l))))"
proof -
  let ?sel = "slice0 (rev (sort (filter (\<lambda>f. endsWith f ''.json'') entries)))
           (case limit_arg of None \<Rightarrow> 100 | Some l \<Rightarrow> l)"
  have e: "ensureDir cwd fs = (fs, Inr ())"
    using assms(1) by (intro ensureDir_existing readdir_Inr_Dir)
  have "set ?sel \<subseteq> set (rev (sort (filter (\<lambda>f. endsWith f ''.json'') entries)))"
    by (rule set_slice0)
  then have "\<forall>f \<in> set ?sel. \<exists>c. readFile fs (path_join (DATA_DIR cwd) f) = Inr c"
    using assms(2) by auto
  from readItems_map_filter [OF this, of P "[]"] show ?thesis
    by (simp add: getAllConversations_def e assms(1))
qed

text \<open>
  C8. For a storage directory whose records can be read, listLatest succeeds, and its
  result is the parsed contents of the selected records that parse, in their order; a
  record whose content does not parse is left out.
\<close>

theorem getAllConversations_skips_unparsable:
  assumes "readdir fs (DATA_DIR cwd) = Inr entries"
    and "\<forall>f \<in> set entries. endsWith f ''.json'' \<longrightarrow>
           (\<exists>c. readFile fs (path_join (DATA_DIR cwd) f) = Inr c)"
  shows "getAllConversations P cwd fs limit_arg =
     (fs, Inr (List.map_filter
        (\<lambda>f. case readFile fs (path_join (DATA_DIR cwd) f) of
                Inl e \<Rightarrow> None
              | Inr c \<Rightarrow> JSON_parse P c)
        (slice0 (rev (sort (filter (\<lambda>f. endsWith f ''.json'') entries)))
           (case limit_arg of None \<Rightarrow> 100 | Some l \<Rightarrow> l))))"
  using assms by (rule getAllConversations_readable)

text \<open>
  The example: the example store holds a record that parses, a record that does not and
  a file that is not a record; the listing is the one payload.
\<close>

theorem getAllConversations_skips_unparsable_witness:
  "getAllConversations example_platform example_cwd example_store None =
     (example_store, Inr [example_payload_known])"
  using getAllConversations_skips_unparsable [OF example_store_readdir, of example_platform None]
  by (simp add: example_fs_defs example_json_defs List.map_filter_simps)

section \<open>The ingestion handler\<close>

lemmas example_save_defs =
  saveConversationPayload_def getFilename_def sanitize_def safeChar_def

text \<open>The example: a signed body of a known type is persisted and acknowledged with 200.\<close>

lemma webhookPost_known_type:
  "webhookPost example_platform example_cwd (Some ''s3cret'') 1700000000000 1700000000123
     example_fs
     \<lparr>signatureHeader =
        Some ''sha256=16739b193415d523bb672e7fba5a60e052f6b1add020717d2f53e51e53ce656a'',
      timestampHeader = Some ''1700000000'',
      requestBody = Some (utf8 example_body_known)\<rparr> =
     (example_fs @
        [([''srv'', ''app'', ''backend''], Dir), ([''srv'', ''app'', ''backend'', ''data''], Dir),
         ([''srv'', ''app'', ''backend'', ''data'',
           ''1700000000_post_call_transcription_abc123.json''],
          File (prettyJSON 0 example_payload_known))],
      \<lparr>status = 200, body = JObj [(''ok'', JBool True)]\<rparr>)"
  by (simp add: webhookPost_def orEmpty_def example_verify_defs example_toString_def
      example_parse_def example_payload_known_def example_save_defs example_fs_defs
      showInt_def digits.simps digitChar_def quoteJSON_def)

text \<open>
  C4 (the code at the failing input). Two bodies that are signed and are valid JSON of a
  type that is not one of the two known ones. The type \<open>a/b\<close> goes into the name as it
  comes and makes a path into a directory \<open>1700000000_a\<close> that does not exist: the write
  fails. The type \<open>{"toString":1}\<close> cannot be converted to a string: naming the file
  throws. In both cases the handler answers 400 \<open>Invalid payload\<close> and the storage
  directory, which the save has created, holds no file.
\<close>

theorem webhookPost_rejects_valid_payload:
  "verifySignature example_platform 1700000000000
     \<lparr>rawBody = utf8 example_body_slash,
      signature = ''sha256=bc01d6bd5e0c912dab3fd09059ad648ff6169b4a5f5e3ef42a87cc5a581a7429'',
      timestamp = ''1700000000'', secret = ''s3cret'', maxSkewSeconds = None\<rparr> = Inr True \<and>
   JSON_parse example_platform (bufferToString example_platform (utf8 example_body_slash)) =
     Some example_payload_slash \<and>
   getProp (Some example_payload_slash) ''type'' = Some (JStr ''a/b'') \<and>
   webhookPost example_platform example_cwd (Some ''s3cret'') 1700000000000 1700000000123
     example_fs
     \<lparr>signatureHeader =
        Some ''sha256=bc01d6bd5e0c912dab3fd09059ad648ff6169b4a5f5e3ef42a87cc5a581a7429'',
      timestampHeader = Some ''1700000000'',
      requestBody = Some (utf8 example_body_slash)\<rparr> =
     (example_fs @
        [([''srv'', ''app'', ''backend''], Dir), ([''srv'', ''app'', ''backend'', ''data''], Dir)],
      \<lparr>status = 400, body = JObj [(''error'', JStr ''Invalid payload'')]\<rparr>) \<and>
   verifySignature example_platform 1700000000000
     \<lparr>rawBody = utf8 example_body_object,
      signature = ''sha256=4c528dbad7ebe6078188e739d7c40a8e11ddf5d9a4ad9d9cb3a7f7b5adcc0066'',
      timestamp = ''1700000000'', secret = ''s3cret'', maxSkewSeconds = None\<rparr> = Inr True \<and>
   JSON_parse example_platform (bufferToString example_platform (utf8 example_body_object)) =
     Some example_payload_object \<and>
   getFilename example_platform 1700000000123 example_payload_object = Inl TypeError \<and>
   webhookPost example_platform example_cwd (Some ''s3cret'') 1700000000000 1700000000123
     example_fs
     \<lparr>signatureHeader =
        Some ''sha256=4c528dbad7ebe6078188e739d7c40a8e11ddf5d9a4ad9d9cb3a7f7b5adcc0066'',
      timestampHeader = Some ''1700000000'',
      requestBody = Some (utf8 example_body_object)\<rparr> =
     (example_fs @
        [([''srv'', ''app'', ''backend''], Dir), ([''srv'', ''app'', ''backend'', ''data''], Dir)],
      \<lparr>status = 400, body = JObj [(''error'', JStr ''Invalid payload'')]\<rparr>)"
  by (simp add: webhookPost_def orEmpty_def example_verify_defs example_body_object_def
      example_toString_def example_parse_def example_payload_slash_def
      example_payload_object_def example_save_defs example_fs_defs showInt_def digits.simps
      digitChar_def invalidPayload_def)

section \<open>Decimal digits and the order of names\<close>

lemma of_char_digitChar: "n < 10 \<Longrightarrow> (of_char (digitChar n) :: nat) = 48 + n"
proof -
  assume "n < 10"
  then have "n \<in> set [0..<10]" by simp
  then show ?thesis
    by (simp add: upt_rec digitChar_def) (elim disjE; simp)
qed

lemma digitChar_less: "m < 10 \<Longrightarrow> n < 10 \<Longrightarrow> (digitChar m < digitChar n) = (m < n)"
  by (simp add: less_char_def of_char_digitChar)

lemma digitChar_less_underscore: "n < 10 \<Longrightarrow> digitChar n < CHR ''_''"
  by (simp add: less_char_def of_char_digitChar)

lemma digits_small: "n < 10 \<Longrightarrow> digits n = [digitChar n]"
  by (subst digits.simps) simp

lemma digits_large: "10 \<le> n \<Longrightarrow> digits n = digits (n div 10) @ [digitChar (n mod 10)]"
  by (subst digits.simps) simp

lemma digits_not_Nil: "digits n \<noteq> []"
proof (cases "n < 10")
  case True
  then show ?thesis by (simp add: digits_small)
next
  case False
  then have "10 \<le> n" by simp
  from digits_large [OF this] show ?thesis by simp
qed

lemma length_digits_large:
  assumes "10 \<le> n"
  shows "2 \<le> length (digits n)"
proof -
  have "length (digits n) = Suc (length (digits (n div 10)))"
    by (simp add: digits_large [OF assms])
  moreover have "0 < length (digits (n div 10))"
    using digits_not_Nil [of "n div 10"] by (cases "digits (n div 10)") simp_all
  ultimately show ?thesis by linarith
qed

lemma append_less_same_length:
  "length xs = length ys \<Longrightarrow>
   (xs @ us < ys @ vs) = (xs < ys \<or> xs = ys \<and> us < (vs :: 'a :: linorder list))"
  by (induction xs ys rule: list_induct2) auto

lemma digits_mono:
  "length (digits m) = length (digits n) \<Longrightarrow> m < n \<Longrightarrow> digits m < digits n"
proof (induction n arbitrary: m rule: less_induct)
  case (less n)
  show ?case
  proof (cases "n < 10")
    case True
    with less.prems show ?thesis
      by (simp add: digits_small digitChar_less)
  next
    case False
    then have n: "10 \<le> n" by simp
    have m: "10 \<le> m"
    proof (rule ccontr)
      assume "\<not> 10 \<le> m"
      then have "length (digits m) = 1" by (simp add: digits_small)
      with length_digits_large [OF n] less.prems(1) show False by simp
    qed
    from less.prems(1) have len: "length (digits (m div 10)) = length (digits (n div 10))"
      by (simp add: digits_large [OF m] digits_large [OF n])
    have "m div 10 < n div 10 \<or> m div 10 = n div 10 \<and> m mod 10 < n mod 10"
    proof (cases "m div 10 < n div 10")
      case True
      then show ?thesis by simp
    next
      case False
      moreover have "m div 10 \<le> n div 10"
        using less.prems(2) by (intro div_le_mono) simp
      ultimately have e: "m div 10 = n div 10" by simp
      have "m = 10 * (m div 10) + m mod 10" and "n = 10 * (n div 10) + n mod 10"
        by simp_all
      with e less.prems(2) have "m mod 10 < n mod 10" by linarith
      with e show ?thesis by simp
    qed
    then show ?thesis
    proof
      assume d: "m div 10 < n div 10"
      have "n div 10 < n" using n by simp
      from less.IH [OF this len d] show ?thesis
        by (simp add: digits_large [OF m] digits_large [OF n] append_less_same_length len)
    next
      assume "m div 10 = n div 10 \<and> m mod 10 < n mod 10"
      then show ?thesis
        by (simp add: digits_large [OF m] digits_large [OF n] append_less_same_length
            digitChar_less)
    qed
  qed
qed

lemma length_digits_upper: "n < 10 ^ Suc k \<Longrightarrow> length (digits n) \<le> Suc k"
proof (induction k arbitrary: n)
  case 0
  then show ?case by (simp add: digits_small)
next
  case (Suc k)
  show ?case
  proof (cases "n < 10")
    case True
    then show ?thesis by (simp add: digits_small)
  next
    case False
    from Suc.prems have "n div 10 < 10 ^ Suc k" by (simp add: less_mult_imp_div_less mult.commute)
    moreover from False have "10 \<le> n" by simp
    ultimately show ?thesis using Suc.IH [of "n div 10"] by (simp add: digits_large [of n])
  qed
qed

lemma length_digits_lower: "10 ^ k \<le> n \<Longrightarrow> Suc k \<le> length (digits n)"
proof (induction k arbitrary: n)
  case 0
  then show ?case using digits_not_Nil [of n] by (cases "digits n") simp_all
next
  case (Suc k)
  have "(1::nat) \<le> 10 ^ k" by simp
  then have "(10::nat) \<le> 10 * 10 ^ k" by linarith
  then have n: "10 \<le> n"
    by (rule le_trans) (use Suc.prems in simp)
  from Suc.prems have "(10 * 10 ^ k) div 10 \<le> n div 10"
    by (intro div_le_mono) simp
  then have "10 ^ k \<le> n div 10" by simp
  from Suc.IH [OF this] show ?case by (simp add: digits_large [OF n])
qed

lemma length_digits_eq: "10 ^ k \<le> n \<Longrightarrow> n < 10 ^ Suc k \<Longrightarrow> length (digits n) = Suc k"
  using length_digits_upper [of n k] length_digits_lower [of k n] by simp

lemma digits_less_iff:
  assumes "length (digits m) = length (digits n)"
  shows "(digits m < digits n) = (m < n)"
proof
  assume l: "digits m < digits n"
  show "m < n"
  proof (rule ccontr)
    assume "\<not> m < n"
    then consider "n < m" | "n = m" by linarith
    then show False
    proof cases
      case 1
      from digits_mono [OF assms [symmetric] 1] l show False by simp
    next
      case 2
      with l show False by simp
    qed
  qed
next
  assume "m < n"
  with assms show "digits m < digits n" by (rule digits_mono)
qed

lemma digits_inj:
  assumes "digits m = digits n"
  shows "m = n"
proof (rule ccontr)
  assume "m \<noteq> n"
  then consider "m < n" | "n < m" by linarith
  then show False
  proof cases
    case 1
    from digits_mono [OF _ 1] assms show False by simp
  next
    case 2
    from digits_mono [OF _ 2] assms show False by simp
  qed
qed

lemma digits_thousands:
  assumes "1000 \<le> n"
  shows "\<exists>a b c. a < 10 \<and> digits n = digits (n div 1000) @ [digitChar a, digitChar b, digitChar c]"
proof -
  have 1: "10 \<le> n" using assms by simp
  have 2: "10 \<le> n div 10" using assms by simp
  have 3: "10 \<le> n div 10 div 10" using assms by (simp add: div_mult2_eq)
  have "n div 10 div 10 div 10 = n div 1000" by (simp add: div_mult2_eq)
  with digits_large [OF 1] digits_large [OF 2] digits_large [OF 3]
  have "digits n = digits (n div 1000) @
      [digitChar (n div 10 div 10 mod 10), digitChar (n div 10 mod 10), digitChar (n mod 10)]"
    by simp
  moreover have "n div 10 div 10 mod 10 < 10" by simp
  ultimately show ?thesis by blast
qed

subsection \<open>Names of stamped and unstamped payloads\<close>

lemma getFilename_timestamped:
  assumes "timestampSeconds p = Some n" and "getFilename P t p = Inr f"
  shows "\<exists>rest. f = digits n @ CHR ''_'' # rest"
proof -
  from assms(1) obtain q
    where q: "getProp (Some p) ''event_timestamp'' = Some (JNum (Finite q))"
    and i: "of_int \<lfloor>q\<rfloor> = q" "0 \<le> q" "q < 2 ^ 53" and n: "n = nat \<lfloor>q\<rfloor>"
    by (auto simp add: timestampSeconds_def split: option.splits json.splits jsnumber.splits if_splits)
  from i have "\<bar>q\<bar> < 2 ^ 53" by simp
  moreover from i have "\<not> \<lfloor>q\<rfloor> < 0" by simp
  ultimately have "toString P (JNum (Finite q)) = Inr (digits n)"
    using i(1) n by (simp add: showInt_def)
  with assms(2) show ?thesis
    by (auto simp add: getFilename_def Let_def q split: sum.splits)
qed

lemma getFilename_defaulted:
  assumes "getProp (Some p) ''event_timestamp'' = None \<or>
           getProp (Some p) ''event_timestamp'' = Some JNull"
    and "0 \<le> nowMs" and "nowMs < 2 ^ 53" and "getFilename P nowMs p = Inr f"
  shows "\<exists>rest. f = digits (nat nowMs) @ CHR ''_'' # rest"
proof -
  have "nullish (getProp (Some p) ''event_timestamp'') d = d" for d
    using assms(1) by auto
  moreover have "toString P (JNum (Finite (of_int nowMs))) = Inr (digits (nat nowMs))"
  proof -
    have "\<bar>(of_int nowMs :: rat)\<bar> < 2 ^ 53"
      using assms(2,3) by (simp add: of_int_less_numeral_power_cancel_iff)
    then show ?thesis using assms(2) by (simp add: showInt_def)
  qed
  ultimately show ?thesis
    using assms(4) by (auto simp add: getFilename_def Let_def split: sum.splits)
qed

text \<open>
  C9 (as amended). A payload without \<open>event_timestamp\<close> is named by the clock in
  milliseconds. For a clock reading \<open>m\<close> of 13 digits and an \<open>event_timestamp\<close> \<open>s\<close> of 10
  digits, the name \<open>a\<close> of the record without timestamp is the greater one exactly when
  \<open>m div 1000 > s\<close>, and the smaller one otherwise: it ranks above the records stamped
  before the second in which it was saved, and below the others.
\<close>

theorem defaulted_name_order:
  assumes "getProp (Some p) ''event_timestamp'' = None \<or>
           getProp (Some p) ''event_timestamp'' = Some JNull"
    and "10 ^ 12 \<le> m" and "m < 10 ^ 13"
    and "getProp (Some q) ''event_timestamp'' = Some (JNum (Finite (of_int s)))"
    and "10 ^ 9 \<le> s" and "s < 10 ^ 10"
    and "getFilename P m p = Inr a" and "getFilename P t q = Inr b"
  shows "(b < a) = (s < m div 1000) \<and> (a < b) = (m div 1000 \<le> s)"
proof -
  define M where "M = nat m"
  define S where "S = nat s"
  have M: "10 ^ 12 \<le> M" "M < 10 ^ 13" and S: "10 ^ 9 \<le> S" "S < 10 ^ 10"
    using assms(2,3,5,6) by (simp_all add: M_def S_def nat_le_iff nat_less_iff le_nat_iff)
  have ts: "timestampSeconds q = Some S"
    using assms(4,5,6) by (simp add: timestampSeconds_def S_def)
  from getFilename_timestamped [OF ts assms(8)] obtain r2
    where q: "b = digits S @ CHR ''_'' # r2" by blast
  have "0 \<le> m" "m < 2 ^ 53" using assms(2,3) by simp_all
  from getFilename_defaulted [OF assms(1) this assms(7)] obtain r1
    where p0: "a = digits M @ CHR ''_'' # r1" by (auto simp add: M_def)
  have "1000 \<le> M" using M by simp
  from digits_thousands [OF this] obtain x y z
    where x: "x < 10" and d: "digits M = digits (M div 1000) @ [digitChar x, digitChar y, digitChar z]"
    by blast
  have p: "a = digits (M div 1000) @ (digitChar x # digitChar y # digitChar z # CHR ''_'' # r1)"
    by (simp add: p0 d)
  have "10 ^ 9 \<le> M div 1000" "M div 1000 < 10 ^ Suc 9" using M by simp_all
  then have lM: "length (digits (M div 1000)) = Suc 9" by (rule length_digits_eq)
  have "10 ^ 9 \<le> S" "S < 10 ^ Suc 9" using S by simp_all
  then have lS: "length (digits S) = Suc 9" by (rule length_digits_eq)
  have len: "length (digits S) = length (digits (M div 1000))" using lM lS by simp
  have u: "digitChar x < CHR ''_''" using x by (rule digitChar_less_underscore)
  then have u': "\<not> CHR ''_'' < digitChar x" "CHR ''_'' \<noteq> digitChar x" by auto
  have e: "(digits S = digits (M div 1000)) = (S = M div 1000)"
    using digits_inj by auto
  have e': "(digits (M div 1000) = digits S) = (M div 1000 = S)"
    using digits_inj by auto
  have "(b < a) = (S < M div 1000)"
    unfolding p q using u'
    by (simp add: append_less_same_length [OF len] digits_less_iff [OF len] e)
  moreover have "(a < b) = (M div 1000 \<le> S)"
    unfolding p q using u
    by (auto simp add: append_less_same_length [OF len [symmetric]]
        digits_less_iff [OF len [symmetric]] e')
  moreover have "(S < M div 1000) = (s < m div 1000)" and "(M div 1000 \<le> S) = (m div 1000 \<le> s)"
  proof -
    have mM: "m = int M" and sS: "s = int S"
      using assms(2,5) by (simp_all add: M_def S_def)
    have d: "m div 1000 = int (M div 1000)" by (simp add: mM zdiv_int)
    show "(S < M div 1000) = (s < m div 1000)" unfolding d sS by simp
    show "(M div 1000 \<le> S) = (m div 1000 \<le> s)" unfolding d sS by simp
  qed
  ultimately show ?thesis by simp
qed

text \<open>
  The example: a record without timestamp saved at 1700000005000 ms is above the record
  stamped 1700000001; one saved at 1700000001999 ms is below it.
\<close>

theorem defaulted_name_order_witness:
  "getFilename example_platform 1700000005000 (JObj []) =
     Inr ''1700000005000_unknown_no_conversation.json'' \<and>
   getFilename example_platform 1700000001999 (JObj []) =
     Inr ''1700000001999_unknown_no_conversation.json'' \<and>
   getFilename example_platform 1700000005000 (stamped 1700000001) =
     Inr ''1700000001_unknown_no_conversation.json'' \<and>
   ''1700000001_unknown_no_conversation.json'' <
     ''1700000005000_unknown_no_conversation.json'' \<and>
   ''1700000001999_unknown_no_conversation.json'' <
     ''1700000001_unknown_no_conversation.json''"
  using
    defaulted_name_order [where p = "JObj []" and m = 1700000005000
      and q = "stamped 1700000001" and s = 1700000001 and P = example_platform
      and t = 1700000005000 and a = "''1700000005000_unknown_no_conversation.json''"
      and b = "''1700000001_unknown_no_conversation.json''"]
    defaulted_name_order [where p = "JObj []" and m = 1700000001999
      and q = "stamped 1700000001" and s = 1700000001 and P = example_platform
      and t = 1700000005000 and a = "''1700000001999_unknown_no_conversation.json''"
      and b = "''1700000001_unknown_no_conversation.json''"]
  by (simp add: stamped_def example_save_defs example_json_defs)

text \<open>
  C9 (counterexample). A payload without \<open>event_timestamp\<close> is saved when the clock reads
  1700000000000 ms; a payload stamped 1700000001 is saved five seconds later. The stamped
  record has the greater name, and listing one record returns it.
\<close>

theorem defaulted_record_ranked_older:
  "getFilename example_platform 1700000000000 (JObj []) =
     Inr ''1700000000000_unknown_no_conversation.json'' \<and>
   getFilename example_platform 1700000005000 (stamped 1700000001) =
     Inr ''1700000001_unknown_no_conversation.json'' \<and>
   ''1700000000000_unknown_no_conversation.json'' < ''1700000001_unknown_no_conversation.json'' \<and>
   snd (getAllConversations example_platform example_cwd
     (fst (saveConversationPayload example_platform example_cwd 1700000005000
       (fst (saveConversationPayload example_platform example_cwd 1700000000000
          example_fs (JObj [])))
       (stamped 1700000001)))
     (Some 1)) = Inr [stamped 1700000001]"
  by (simp add: getAllConversations_def example_save_defs example_fs_defs example_json_defs
      List.map_filter_simps)

section \<open>The order of a listing\<close>

lemma in_set_map_filter:
  "(b \<in> set (List.map_filter g xs)) = (\<exists>x \<in> set xs. g x = Some b)"
  by (induction xs) (auto simp add: List.map_filter_simps split: option.splits)

lemma sorted_wrt_map_filter:
  assumes "sorted_wrt Q xs"
    and "\<And>x y a b. x \<in> set xs \<Longrightarrow> y \<in> set xs \<Longrightarrow> Q x y \<Longrightarrow> g x = Some a \<Longrightarrow> g y = Some b
           \<Longrightarrow> R a b"
  shows "sorted_wrt R (List.map_filter g xs)"
  using assms
proof (induction xs)
  case Nil
  then show ?case by (simp add: List.map_filter_simps)
next
  case (Cons x xs)
  have IH: "sorted_wrt R (List.map_filter g xs)"
    using Cons.prems by (intro Cons.IH) auto
  show ?case
  proof (cases "g x")
    case None
    with IH show ?thesis by (simp add: List.map_filter_simps)
  next
    case (Some a)
    have "\<forall>b \<in> set (List.map_filter g xs). R a b"
    proof
      fix b
      assume "b \<in> set (List.map_filter g xs)"
      then obtain y where y: "y \<in> set xs" "g y = Some b"
        by (auto simp add: in_set_map_filter)
      with Cons.prems(1) have "Q x y" by simp
      with y Some show "R a b" by (intro Cons.prems(2) [of x y]) simp_all
    qed
    with IH Some show ?thesis by (simp add: List.map_filter_simps)
  qed
qed

lemma descending_slice0: "sorted_wrt (\<lambda>x y. y \<le> x) (slice0 (rev (sort xs)) k)"
proof -
  have "sorted_wrt (\<lambda>x y. y \<le> x) (rev (sort xs))"
    by (simp add: sorted_wrt_rev)
  then show ?thesis
    by (simp add: slice0_def sorted_wrt_take)
qed

lemma slice0_take: "\<exists>j. slice0 xs k = take j xs"
  by (auto simp add: slice0_def)

lemma length_slice0:
  "length (slice0 xs k) = (if k < 0 then nat (int (length xs) + k) else min (nat k) (length xs))"
  by (auto simp add: slice0_def)

lemma length_map_filter_total:
  "\<forall>x \<in> set xs. g x \<noteq> None \<Longrightarrow> length (List.map_filter g xs) = length xs"
  by (induction xs) (auto simp add: List.map_filter_simps split: option.splits)

lemma descending_take_drop:
  assumes "x \<in> set (take j (rev (sort xs)))" and "y \<in> set (drop j (rev (sort xs)))"
  shows "y \<le> x"
proof -
  have "sorted_wrt (\<lambda>x y. y \<le> x) (take j (rev (sort xs)) @ drop j (rev (sort xs)))"
    by (simp add: sorted_wrt_rev)
  with assms show ?thesis
    unfolding sorted_wrt_append by blast
qed

lemma timestamped_names_ordered:
  assumes "timestampSeconds a = Some m" and "timestampSeconds b = Some n"
    and "length (digits m) = w" and "length (digits n) = w"
    and "getFilename P t a = Inr x" and "getFilename P t b = Inr y"
    and "y \<le> x"
  shows "n \<le> m"
proof (rule ccontr)
  assume "\<not> n \<le> m"
  then have "m < n" by simp
  moreover have len: "length (digits m) = length (digits n)" using assms(3,4) by simp
  ultimately have d: "digits m < digits n" by (intro digits_mono)
  from getFilename_timestamped [OF assms(1,5)] obtain r
    where a: "x = digits m @ CHR ''_'' # r" by blast
  from getFilename_timestamped [OF assms(2,6)] obtain r'
    where b: "y = digits n @ CHR ''_'' # r'" by blast
  from d have "x < y"
    unfolding a b by (simp add: append_less_same_length [OF len])
  with assms(7) show False by simp
qed

text \<open>
  C5 (as amended). Let every record of the store that parses carry an \<open>event_timestamp\<close>
  that is a non-negative integer below \<open>2^53\<close> written with the same number \<open>w\<close> of digits,
  and be named as the store names its payload. Then listLatest returns stored payloads,
  their timestamps descend, and every stored payload that is not returned is no newer than
  each one that is returned: the newest come first also when the limit cuts the list.
  When every record parses, as many payloads are returned as the limit allows. Saving the
  timestamps 100, 300, 200 and listing three, or two, is the example that follows.
\<close>

theorem listLatest_descending:
  assumes "readdir fs (DATA_DIR cwd) = Inr entries"
    and "\<forall>f \<in> set entries. endsWith f ''.json'' \<longrightarrow>
           (case readFile fs (path_join (DATA_DIR cwd) f) of
              Inl e \<Rightarrow> False
            | Inr c \<Rightarrow>
                (case JSON_parse P c of
                   None \<Rightarrow> True
                 | Some p \<Rightarrow>
                     (case timestampSeconds p of
                        None \<Rightarrow> False
                      | Some n \<Rightarrow> length (digits n) = w \<and> getFilename P t p = Inr f)))"
  shows "\<exists>items ns. getAllConversations P cwd fs limit_arg = (fs, Inr items) \<and>
           map timestampSeconds items = map Some ns \<and> sorted (rev ns) \<and>
           (\<forall>q \<in> set items. \<exists>f \<in> set entries. storedAs P cwd fs f q) \<and>
           (\<forall>f \<in> set entries. \<forall>q. storedAs P cwd fs f q \<longrightarrow>
              q \<in> set items \<or> (\<forall>n \<in> set ns. the (timestampSeconds q) \<le> n)) \<and>
           ((\<forall>f \<in> set entries. endsWith f ''.json'' \<longrightarrow> (\<exists>q. storedAs P cwd fs f q)) \<longrightarrow>
              length items = length (slice0 (filter (\<lambda>f. endsWith f ''.json'') entries)
                (case limit_arg of None \<Rightarrow> 100 | Some l \<Rightarrow> l)))"
proof -
  let ?g = "\<lambda>f. case readFile fs (path_join (DATA_DIR cwd) f) of
                Inl e \<Rightarrow> None
              | Inr c \<Rightarrow> JSON_parse P c"
  let ?k = "case limit_arg of None \<Rightarrow> 100 | Some l \<Rightarrow> l"
  let ?js = "filter (\<lambda>f. endsWith f ''.json'') entries"
  let ?L = "rev (sort ?js)"
  let ?sel = "slice0 ?L ?k"
  let ?items = "List.map_filter ?g ?sel"
  let ?ns = "map (the \<circ> timestampSeconds) ?items"
  obtain j where j: "?sel = take j ?L"
    using slice0_take [of ?L ?k] by blast
  have sel: "f \<in> set entries \<and> endsWith f ''.json''" if "f \<in> set ?sel" for f
    using that set_slice0 [of ?L] by auto
  have st: "storedAs P cwd fs f q = (endsWith f ''.json'' \<and> ?g f = Some q)" for f q
    by (simp add: storedAs_def split: sum.splits)
  have stamped: "\<exists>n. timestampSeconds p = Some n \<and> length (digits n) = w \<and>
      getFilename P t p = Inr f"
    if "f \<in> set entries" and "endsWith f ''.json''" and "?g f = Some p" for f p
  proof -
    from that(1,2) assms(2)
    have C: "case readFile fs (path_join (DATA_DIR cwd) f) of
              Inl e \<Rightarrow> False
            | Inr c \<Rightarrow>
                (case JSON_parse P c of
                   None \<Rightarrow> True
                 | Some p \<Rightarrow>
                     (case timestampSeconds p of
                        None \<Rightarrow> False
                      | Some n \<Rightarrow> length (digits n) = w \<and> getFilename P t p = Inr f))"
      by blast
    from that(3) obtain c where "readFile fs (path_join (DATA_DIR cwd) f) = Inr c"
      and "JSON_parse P c = Some p"
      by (auto split: sum.splits)
    with C show ?thesis by (cases "timestampSeconds p") simp_all
  qed
  have "\<forall>f \<in> set entries. endsWith f ''.json'' \<longrightarrow>
           (\<exists>c. readFile fs (path_join (DATA_DIR cwd) f) = Inr c)"
  proof (intro ballI impI)
    fix f
    assume "f \<in> set entries" and "endsWith f ''.json''"
    with assms(2) show "\<exists>c. readFile fs (path_join (DATA_DIR cwd) f) = Inr c"
      by (cases "readFile fs (path_join (DATA_DIR cwd) f)") auto
  qed
  from getAllConversations_readable [OF assms(1) this]
  have r: "getAllConversations P cwd fs limit_arg = (fs, Inr ?items)" .
  have src: "\<exists>f. f \<in> set ?sel \<and> ?g f = Some p" if "p \<in> set ?items" for p
    using that unfolding in_set_map_filter by blast
  have "\<forall>p \<in> set ?items. \<exists>n. timestampSeconds p = Some n"
  proof
    fix p
    assume "p \<in> set ?items"
    from src [OF this] obtain f where f: "f \<in> set ?sel" "?g f = Some p" by blast
    from sel [OF f(1)] f(2) stamped show "\<exists>n. timestampSeconds p = Some n" by blast
  qed
  then have m: "map timestampSeconds ?items = map Some ?ns"
    by auto
  have "sorted_wrt (\<lambda>p q. (the \<circ> timestampSeconds) q \<le> (the \<circ> timestampSeconds) p) ?items"
  proof (rule sorted_wrt_map_filter [OF descending_slice0])
    fix x y a b
    assume x: "x \<in> set ?sel" and y: "y \<in> set ?sel" and le: "y \<le> x"
      and a: "?g x = Some a" and b: "?g y = Some b"
    from sel [OF x] a stamped obtain m
      where ma: "timestampSeconds a = Some m" "length (digits m) = w" "getFilename P t a = Inr x"
      by blast
    from sel [OF y] b stamped obtain n
      where nb: "timestampSeconds b = Some n" "length (digits n) = w" "getFilename P t b = Inr y"
      by blast
    from timestamped_names_ordered [OF ma(1) nb(1) ma(2) nb(2) ma(3) nb(3) le]
    show "(the \<circ> timestampSeconds) b \<le> (the \<circ> timestampSeconds) a"
      using ma(1) nb(1) by simp
  qed
  then have d: "sorted (rev ?ns)"
    by (simp add: sorted_wrt_rev sorted_wrt_map)
  have from_store: "\<forall>q \<in> set ?items. \<exists>f \<in> set entries. storedAs P cwd fs f q"
  proof
    fix q
    assume "q \<in> set ?items"
    from src [OF this] obtain f where f: "f \<in> set ?sel" "?g f = Some q" by blast
    with sel [OF f(1)] show "\<exists>f \<in> set entries. storedAs P cwd fs f q"
      unfolding st by blast
  qed
  have newest: "\<forall>f \<in> set entries. \<forall>q. storedAs P cwd fs f q \<longrightarrow>
      q \<in> set ?items \<or> (\<forall>n \<in> set ?ns. the (timestampSeconds q) \<le> n)"
  proof (intro ballI allI impI)
    fix f q
    assume f: "f \<in> set entries" and "storedAs P cwd fs f q"
    then have e: "endsWith f ''.json''" and g: "?g f = Some q"
      unfolding st by simp_all
    from f e have "f \<in> set ?L" by simp
    then have "f \<in> set (take j ?L) \<or> f \<in> set (drop j ?L)"
      by (metis Un_iff append_take_drop_id set_append)
    then show "q \<in> set ?items \<or> (\<forall>n \<in> set ?ns. the (timestampSeconds q) \<le> n)"
    proof
      assume "f \<in> set (take j ?L)"
      then have "f \<in> set ?sel" unfolding j .
      with g have "q \<in> set ?items" unfolding in_set_map_filter by blast
      then show ?thesis ..
    next
      assume dr: "f \<in> set (drop j ?L)"
      from f e g stamped obtain n
        where nq: "timestampSeconds q = Some n" "length (digits n) = w" "getFilename P t q = Inr f"
        by blast
      have "\<forall>i \<in> set ?ns. the (timestampSeconds q) \<le> i"
      proof
        fix i
        assume "i \<in> set ?ns"
        then obtain p where p: "p \<in> set ?items" and i: "i = the (timestampSeconds p)"
          by auto
        from src [OF p] obtain x where x: "x \<in> set ?sel" "?g x = Some p" by blast
        from sel [OF x(1)] x(2) stamped obtain m
          where mp: "timestampSeconds p = Some m" "length (digits m) = w"
            "getFilename P t p = Inr x"
          by blast
        from x(1) have "x \<in> set (take j ?L)" unfolding j .
        from this dr have "f \<le> x" by (rule descending_take_drop)
        from timestamped_names_ordered [OF mp(1) nq(1) mp(2) nq(2) mp(3) nq(3) this]
        show "the (timestampSeconds q) \<le> i" using mp(1) nq(1) i by simp
      qed
      then show ?thesis ..
    qed
  qed
  have count: "length ?items = length (slice0 ?js ?k)"
    if all: "\<forall>f \<in> set entries. endsWith f ''.json'' \<longrightarrow> (\<exists>q. storedAs P cwd fs f q)"
  proof -
    have "\<forall>f \<in> set ?sel. ?g f \<noteq> None"
    proof
      fix f
      assume "f \<in> set ?sel"
      from sel [OF this] all obtain q where "storedAs P cwd fs f q" by blast
      then show "?g f \<noteq> None" unfolding st by simp
    qed
    then have "length ?items = length ?sel" by (rule length_map_filter_total)
    also have "\<dots> = length (slice0 ?js ?k)" by (simp add: length_slice0)
    finally show ?thesis .
  qed
  from r m d from_store newest count show ?thesis by blast
qed

text \<open>
  The example: saved in the order 100, 300, 200 and listed as 300, 200, 100; with the
  limit 2 the two newest are listed.
\<close>

theorem listLatest_descending_witness:
  "snd (getAllConversations example_platform example_cwd
     (fst (saveConversationPayload example_platform example_cwd 1700000000200
       (fst (saveConversationPayload example_platform example_cwd 1700000000100
         (fst (saveConversationPayload example_platform example_cwd 1700000000000
            example_fs (stamped 100)))
         (stamped 300)))
       (stamped 200)))
     (Some 3)) = Inr [stamped 300, stamped 200, stamped 100] \<and>
   snd (getAllConversations example_platform example_cwd
     (fst (saveConversationPayload example_platform example_cwd 1700000000200
       (fst (saveConversationPayload example_platform example_cwd 1700000000100
         (fst (saveConversationPayload example_platform example_cwd 1700000000000
            example_fs (stamped 100)))
         (stamped 300)))
       (stamped 200)))
     (Some 2)) = Inr [stamped 300, stamped 200]"
proof -
  define fs where "fs =
    example_fs @
    [([''srv'', ''app'', ''backend''], Dir),
     ([''srv'', ''app'', ''backend'', ''data''], Dir),
     ([''srv'', ''app'', ''backend'', ''data'', ''100_unknown_no_conversation.json''],
      File (prettyJSON 0 (stamped 100))),
     ([''srv'', ''app'', ''backend'', ''data'', ''300_unknown_no_conversation.json''],
      File (prettyJSON 0 (stamped 300))),
     ([''srv'', ''app'', ''backend'', ''data'', ''200_unknown_no_conversation.json''],
      File (prettyJSON 0 (stamped 200)))]"
  have s: "fst (saveConversationPayload example_platform example_cwd 1700000000200
       (fst (saveConversationPayload example_platform example_cwd 1700000000100
         (fst (saveConversationPayload example_platform example_cwd 1700000000000
            example_fs (stamped 100)))
         (stamped 300)))
       (stamped 200)) = fs"
    by (simp add: fs_def example_save_defs example_fs_defs example_json_defs)
  have rd: "readdir fs (DATA_DIR example_cwd) =
      Inr [''100_unknown_no_conversation.json'', ''300_unknown_no_conversation.json'',
           ''200_unknown_no_conversation.json'']"
    by (simp add: fs_def example_fs_defs)
  have rec: "\<forall>f \<in> set [''100_unknown_no_conversation.json'', ''300_unknown_no_conversation.json'',
           ''200_unknown_no_conversation.json''].
      endsWith f ''.json'' \<longrightarrow>
        (case readFile fs (path_join (DATA_DIR example_cwd) f) of
           Inl e \<Rightarrow> False
         | Inr c \<Rightarrow>
             (case JSON_parse example_platform c of
                None \<Rightarrow> True
              | Some p \<Rightarrow>
                  (case timestampSeconds p of
                     None \<Rightarrow> False
                   | Some n \<Rightarrow> length (digits n) = 3 \<and>
                       getFilename example_platform 0 p = Inr f)))"
    by (simp add: fs_def example_save_defs example_fs_defs example_json_defs
        timestampSeconds_def)
  from listLatest_descending [OF rd rec, of "Some 3"]
    listLatest_descending [OF rd rec, of "Some 2"] show ?thesis
    unfolding s
    by (simp add: fs_def getAllConversations_def example_fs_defs example_json_defs)
qed

text \<open>
  C5 (counterexample). The payloads stamped 9 and 10 are saved in that order; listing two
  returns the one stamped 9 first, since the name \<open>9_...\<close> is greater than \<open>10_...\<close>.
\<close>

theorem listLatest_not_descending:
  "snd (getAllConversations example_platform example_cwd
     (fst (saveConversationPayload example_platform example_cwd 1700000000100
       (fst (saveConversationPayload example_platform example_cwd 1700000000000
          example_fs (stamped 9)))
       (stamped 10)))
     (Some 2)) = Inr [stamped 9, stamped 10] \<and>
   timestampSeconds (stamped 9) = Some 9 \<and> timestampSeconds (stamped 10) = Some 10"
  by (simp add: getAllConversations_def example_save_defs example_fs_defs example_json_defs
      timestampSeconds_def)

section \<open>Names, substrings and the directory after a save\<close>

lemma startsWith_iff: "startsWith s p = (\<exists>ss. s = p @ ss)"
proof
  assume "startsWith s p"
  then have "s = p @ drop (length p) s"
    by (metis append_take_drop_id startsWith_def)
  then show "\<exists>ss. s = p @ ss" by blast
next
  assume "\<exists>ss. s = p @ ss"
  then show "startsWith s p" by (auto simp add: startsWith_def)
qed

lemma includes_str_iff: "includes_str s sub = (\<exists>ps ss. s = ps @ sub @ ss)"
proof (induction s)
  case Nil
  then show ?case by auto
next
  case (Cons c cs)
  show ?case
  proof
    assume "includes_str (c # cs) sub"
    then consider "startsWith (c # cs) sub" | "includes_str cs sub" by auto
    then show "\<exists>ps ss. c # cs = ps @ sub @ ss"
    proof cases
      case 1
      then obtain ss where "c # cs = sub @ ss" unfolding startsWith_iff by blast
      then have "c # cs = [] @ sub @ ss" by simp
      then show ?thesis by blast
    next
      case 2
      with Cons.IH obtain ps ss where "cs = ps @ sub @ ss" by blast
      then have "c # cs = (c # ps) @ sub @ ss" by simp
      then show ?thesis by blast
    qed
  next
    assume "\<exists>ps ss. c # cs = ps @ sub @ ss"
    then obtain ps ss where e: "c # cs = ps @ sub @ ss" by blast
    show "includes_str (c # cs) sub"
    proof (cases ps)
      case Nil
      with e have "startsWith (c # cs) sub" unfolding startsWith_iff by auto
      then show ?thesis by simp
    next
      case (Cons a as)
      with e have "cs = as @ sub @ ss" by simp
      with Cons.IH show ?thesis by auto
    qed
  qed
qed

lemma endsWith_append: "endsWith (s @ p) p"
  by (simp add: endsWith_def)

lemma getFilename_parts:
  assumes "getFilename P nowMs payload = Inr f"
  shows "\<exists>pre cid.
     toString P (nullish (getProp (getProp (Some payload) ''data'') ''conversation_id'')
       (JStr ''no_conversation'')) = Inr cid \<and>
     f = pre @ sanitize cid @ ''.json''"
  using assms by (auto simp add: getFilename_def Let_def split: sum.splits)

lemma clearjunk_mem: "((k, v) \<in> set (AList.clearjunk al)) = (map_of al k = Some v)"
proof -
  have "map_of (AList.clearjunk al) k = Some v \<longleftrightarrow> (k, v) \<in> set (AList.clearjunk al)"
    by (rule map_of_eq_Some_iff) (rule distinct_clearjunk)
  then show ?thesis by (simp add: map_of_clearjunk)
qed

lemma readdir_mem:
  assumes "readdir fs d = Inr ns"
  shows "(n \<in> set ns) = (\<exists>v. map_of fs (d @ [n]) = Some v)"
proof -
  from assms have ns: "ns = map (\<lambda>(p, n). last p)
      (filter (\<lambda>(p, n). p \<noteq> [] \<and> butlast p = d) (AList.clearjunk fs))"
    by (auto simp add: readdir_def split: option.splits node.splits)
  show ?thesis
  proof
    assume "n \<in> set ns"
    then obtain p v where "(p, v) \<in> set (AList.clearjunk fs)" "p \<noteq> []" "butlast p = d" "last p = n"
      unfolding ns by auto
    moreover from this have "p = d @ [n]" by (metis append_butlast_last_id)
    ultimately show "\<exists>v. map_of fs (d @ [n]) = Some v"
      by (auto simp add: clearjunk_mem)
  next
    assume "\<exists>v. map_of fs (d @ [n]) = Some v"
    then obtain v where "(d @ [n], v) \<in> set (AList.clearjunk fs)"
      by (auto simp add: clearjunk_mem)
    then have "last (d @ [n]) \<in> set ns" unfolding ns by force
    then show "n \<in> set ns" by simp
  qed
qed

lemma save_writes:
  assumes "saveConversationPayload P cwd nowMs fs payload = (fs1, Inr u)"
    and "getFilename P nowMs payload = Inr f"
  shows "map_of fs1 (path_join (DATA_DIR cwd) f) = Some (File (JSON_stringify P payload))"
  using assms
  by (auto simp add: saveConversationPayload_def Let_def update_conv'
      split: prod.splits sum.splits dest!: writeFile_ok)

lemma ne_empty_if_in: "x \<in> A \<Longrightarrow> A \<noteq> {}"
  by auto

lemma getFilename_path:
  assumes "getFilename P nowMs payload = Inr f" and "CHR ''/'' \<notin> set f"
  shows "path_join dir f = dir @ [f]"
proof -
  have "5 \<le> length f"
    using assms(1) by (auto simp add: getFilename_def Let_def split: sum.splits)
  then have "f \<noteq> []" "f \<noteq> ''.''" "f \<noteq> ''..''"
    by auto
  with assms(2) show ?thesis by (intro path_join_plain)
qed

text \<open>
  C10 (as amended). After a successful save under a name \<open>f\<close> without a path separator,
  with \<open>sid\<close> the sanitized string of the conversation id:
  \<open>f\<close> is in the directory, ends in \<open>.json\<close> and contains the sanitized conversation
  id. A getById call with an id that occurs in no stored name returns not found; that
  holds for the unsanitized id only when it does not occur in a name, which its not being
  a substring of the sanitized id does not ensure. A getById call with the sanitized id
  returns the saved payload when \<open>f\<close> is the greatest matching name and the stored text
  parses back to the payload.
\<close>

theorem getById_after_save:
  assumes "saveConversationPayload P cwd nowMs fs payload = (fs1, Inr u)"
    and "getFilename P nowMs payload = Inr f" and "CHR ''/'' \<notin> set f"
    and "toString P (nullish
           (getProp (getProp (Some payload) ''data'') ''conversation_id'')
           (JStr ''no_conversation'')) = Inr cid"
    and "sid = sanitize cid"
    and "readdir fs1 (DATA_DIR cwd) = Inr entries"
  shows "f \<in> set entries \<and> endsWith f ''.json'' \<and> includes_str f sid \<and>
         ((\<forall>g \<in> set entries. \<not> includes_str g raw) \<longrightarrow>
            getConversationById P cwd fs1 raw = (fs1, Inr JNull)) \<and>
         ((\<forall>g \<in> set entries. includes_str g sid \<and> endsWith g ''.json'' \<longrightarrow> g \<le> f) \<and>
          JSON_parse P (JSON_stringify P payload) = Some payload \<longrightarrow>
            getConversationById P cwd fs1 sid = (fs1, Inr payload))"
proof -
  have path: "path_join (DATA_DIR cwd) f = DATA_DIR cwd @ [f]"
    using assms(2,3) by (rule getFilename_path)
  from save_writes [OF assms(1,2)] have w: "map_of fs1 (DATA_DIR cwd @ [f]) =
      Some (File (JSON_stringify P payload))"
    using path by simp
  then have mem: "f \<in> set entries"
    by (simp add: readdir_mem [OF assms(6)])
  from getFilename_parts [OF assms(2)] obtain pre where pre: "f = pre @ sid @ ''.json''"
    using assms(4,5) by auto
  then have e: "endsWith f ''.json''"
    using endsWith_append [of "pre @ sid" "''.json''"] by simp
  from pre have i: "includes_str f sid"
    unfolding includes_str_iff by blast
  have a: "getConversationById P cwd fs1 raw = (fs1, Inr JNull)"
    if "\<forall>g \<in> set entries. \<not> includes_str g raw"
  proof -
    from that have "set (filter (\<lambda>f. includes_str f raw \<and> endsWith f ''.json'') entries) = {}"
      by auto
    with getConversationById_Max [OF assms(6) refl, of P raw] show ?thesis
      by (simp only: refl if_True)
  qed
  have b: "getConversationById P cwd fs1 sid = (fs1, Inr payload)"
    if g: "\<forall>g \<in> set entries. includes_str g sid \<and> endsWith g ''.json'' \<longrightarrow> g \<le> f"
      and rt: "JSON_parse P (JSON_stringify P payload) = Some payload"
  proof -
    let ?M = "set (filter (\<lambda>f. includes_str f sid \<and> endsWith f ''.json'') entries)"
    have fM: "f \<in> ?M" using mem e i by simp
    then have ne: "?M \<noteq> {}" by (rule ne_empty_if_in) 
    have mx: "Max ?M = f"
      using fM g by (intro Max_eqI) auto
    have rf: "readFile fs1 (path_join (DATA_DIR cwd) f) = Inr (JSON_stringify P payload)"
      using assms(1,2) by (rule save_ok_read)
    show ?thesis
      using getConversationById_Max [OF assms(6) refl, of P sid]
      by (simp only: ne if_False mx rf sum.case rt option.case)
  qed
  from mem e i a b show ?thesis by blast
qed

text \<open>
  The example: the conversation id \<open>conv/42\<close> is saved as \<open>conv_42\<close>; the id as sent is
  not found, the sanitized id finds the payload.
\<close>

theorem getById_after_save_witness:
  "getConversationById example_platform example_cwd
     (fst (saveConversationPayload example_platform example_cwd 1700000000000 example_fs
        example_payload_conv)) ''conv/42'' =
     (fst (saveConversationPayload example_platform example_cwd 1700000000000 example_fs
        example_payload_conv), Inr JNull) \<and>
   getConversationById example_platform example_cwd
     (fst (saveConversationPayload example_platform example_cwd 1700000000000 example_fs
        example_payload_conv)) ''conv_42'' =
     (fst (saveConversationPayload example_platform example_cwd 1700000000000 example_fs
        example_payload_conv), Inr example_payload_conv)"
proof -
  define fs1 where "fs1 =
    example_fs @
    [([''srv'', ''app'', ''backend''], Dir),
     ([''srv'', ''app'', ''backend'', ''data''], Dir),
     ([''srv'', ''app'', ''backend'', ''data'', ''1700000000_post_call_audio_conv_42.json''],
      File (prettyJSON 0 example_payload_conv))]"
  have s: "saveConversationPayload example_platform example_cwd 1700000000000 example_fs
      example_payload_conv = (fs1, Inr ())"
    by (simp add: fs1_def example_save_defs example_fs_defs example_json_defs)
  have f: "getFilename example_platform 1700000000000 example_payload_conv =
      Inr ''1700000000_post_call_audio_conv_42.json''"
    by (simp add: example_save_defs example_json_defs)
  have cid: "toString example_platform (nullish
      (getProp (getProp (Some example_payload_conv) ''data'') ''conversation_id'')
      (JStr ''no_conversation'')) = Inr ''conv/42''"
    by (simp add: example_json_defs)
  have sid: "''conv_42'' = sanitize ''conv/42''"
    by (simp add: example_save_defs)
  have rd: "readdir fs1 (DATA_DIR example_cwd) =
      Inr [''1700000000_post_call_audio_conv_42.json'']"
    by (simp add: fs1_def example_fs_defs)
  have rt: "JSON_parse example_platform (JSON_stringify example_platform example_payload_conv) =
      Some example_payload_conv"
    by (simp add: example_json_defs)
  have n: "\<not> includes_str ''1700000000_post_call_audio_conv_42.json'' ''conv/42''"
    by (simp add: startsWith_def)
  from getById_after_save [OF s f _ cid sid rd, of "''conv/42''"] rt n show ?thesis
    unfolding s by simp
qed

text \<open>
  C10 (counterexample). The conversation id \<open>n.json\<close> has a character outside the class and
  is not a substring of its sanitized form \<open>n_json\<close>; after the save, getById with the
  unsanitized id finds the record, whose name ends in \<open>n_json.json\<close>.
\<close>

theorem getById_finds_unsanitized_id:
  "\<not> list_all safeChar ''n.json'' \<and> sanitize ''n.json'' = ''n_json'' \<and>
   \<not> includes_str ''n_json'' ''n.json'' \<and>
   getFilename example_platform 1700000000000 example_payload_dotted =
     Inr ''1700000000_post_call_audio_n_json.json'' \<and>
   snd (getConversationById example_platform example_cwd
     (fst (saveConversationPayload example_platform example_cwd 1700000000000 example_fs
        example_payload_dotted)) ''n.json'') = Inr example_payload_dotted"
  by (simp add: getConversationById_def example_save_defs example_fs_defs example_json_defs)

section \<open>Sanitization and the storage directory\<close>

lemma sanitize_safe: "list_all safeChar (sanitize s)"
  by (induction s) (simp_all add: sanitize_def safeChar_def)

lemma length_sanitize: "length (sanitize s) = length s"
  by (simp add: sanitize_def)

text \<open>
  A name without a path separator is the name of a file of the storage directory. The
  sanitized conversation id has none; the type and the timestamp are written as they come.
\<close>

lemma save_in_storage_directory:
  assumes "saveConversationPayload P cwd nowMs fs payload = (fs1, Inr u)"
    and "getFilename P nowMs payload = Inr f" and "CHR ''/'' \<notin> set f"
  shows "readFile fs1 (DATA_DIR cwd @ [f]) = Inr (JSON_stringify P payload)"
  using save_ok_read [OF assms(1,2)] getFilename_path [OF assms(2,3), of "DATA_DIR cwd"]
  by simp

text \<open>
  C7 (the code at the failing input). The conversation id \<open>../../etc\<close> is sanitized, the
  type \<open>a/../../x\<close> is not: the file is written into \<open>backend\<close>, outside the storage
  directory \<open>backend/data\<close>, which stays empty.
\<close>

theorem save_escapes_storage_directory:
  "getFilename example_platform 1700000000000 example_payload_traversal =
     Inr ''1700000000_a/../../x_______etc.json'' \<and>
   path_join (DATA_DIR example_cwd) ''1700000000_a/../../x_______etc.json'' =
     [''srv'', ''app'', ''backend'', ''x_______etc.json''] \<and>
   (case saveConversationPayload example_platform example_cwd 1700000000000 example_fs
           example_payload_traversal of
      (fs1, r) \<Rightarrow>
        r = Inr () \<and>
        readFile fs1 [''srv'', ''app'', ''backend'', ''x_______etc.json''] =
          Inr (JSON_stringify example_platform example_payload_traversal) \<and>
        readdir fs1 (DATA_DIR example_cwd) = Inr [])"
  by (simp add: example_save_defs example_fs_defs example_json_defs)

end
